theory Spec2Isabelle
  imports Complex_Main "HOL-Library.Word" "HOL-Library.Signed_Division"
begin

section \<open>Machine integers and failures\<close>

text \<open>
  The coordinates of the implementation are \<^verbatim>\<open>std::intptr_t\<close> (and \<^verbatim>\<open>std::ptrdiff_t\<close> in
  the interface header): signed 64-bit values on the LP64 hosts the library targets.
  They are modelled as \<open>64 word\<close>: \<open>+\<close>, \<open>-\<close> and \<open>*\<close> wrap around (the two's-complement
  result every mainstream compiler produces; the language itself leaves signed overflow
  undefined), \<open>sint\<close> reads the signed value. \<^verbatim>\<open>std::size_t\<close> is the same word read with
  \<open>uint\<close> or \<open>unat\<close>.
\<close>

type_synonym intptr_t = "64 word"
type_synonym size_t = "64 word"

text \<open>
  What stops a run instead of returning: a failed \<^verbatim>\<open>assert\<close>, a subscript outside a
  vector or array, a division that traps, an access outside the memory a pointer
  addresses.
\<close>

datatype error = AssertionFailed | OutOfRange | ArithmeticTrap | InvalidMemory

text \<open>
  The quotient of two \<^verbatim>\<open>std::intptr_t\<close>: truncation towards zero (\<open>sdiv\<close> on the signed
  values); a zero divisor and the quotient \<open>INTPTR_MIN / -1\<close> trap.
\<close>

definition intptr_div :: "intptr_t \<Rightarrow> intptr_t \<Rightarrow> error + intptr_t" where
  "intptr_div a b =
     (if b = 0 \<or> (sint a = - (2 ^ 63) \<and> sint b = - 1) then Inl ArithmeticTrap
      else Inr (word_of_int (sint a sdiv sint b)))"

text \<open>
  The implicit conversion of a signed coordinate to \<^verbatim>\<open>std::size_t\<close>: the unsigned value
  congruent to the signed one modulo \<open>2 ^ 64\<close>.
\<close>

definition size_t_of_intptr :: "intptr_t \<Rightarrow> size_t" where
  "size_t_of_intptr x = word_of_int (sint x)"

text \<open>The unchecked \<^verbatim>\<open>operator[]\<close> of a vector: outside the vector there is no value.\<close>

definition subscript :: "'a list \<Rightarrow> nat \<Rightarrow> error + 'a" where
  "subscript v i = (if i < length v then Inr (v ! i) else Inl OutOfRange)"

section \<open>RangeImpl and IdImpl\<close>

text \<open>
  \<^verbatim>\<open>RangeImpl<Dimensions>\<close> is a \<^verbatim>\<open>std::vector<std::intptr_t>\<close>; the template parameter
  \<^verbatim>\<open>Dimensions\<close> is the argument \<open>D\<close> of the operations below. \<^verbatim>\<open>IdImpl<N>\<close> derives from
  \<^verbatim>\<open>RangeImpl<N>\<close> and adds no member.
\<close>

type_synonym RangeImpl = "intptr_t list"
type_synonym IdImpl = "intptr_t list"

text \<open>\<^verbatim>\<open>RangeImpl() : vector(Dimensions) {}\<close>\<close>

definition RangeImpl_default :: "nat \<Rightarrow> RangeImpl" where
  "RangeImpl_default D = replicate D 0"

text \<open>\<^verbatim>\<open>RangeImpl(const RangeImpl &init) : vector(init) {}\<close>\<close>

definition RangeImpl_copy :: "nat \<Rightarrow> RangeImpl \<Rightarrow> RangeImpl" where
  "RangeImpl_copy D init = init"

text \<open>
  \<^verbatim>\<open>RangeImpl(std::initializer_list<std::intptr_t> l)\<close>, with its
  \<^verbatim>\<open>assert(Dimensions == l.size())\<close>.
\<close>

definition RangeImpl_init :: "nat \<Rightarrow> intptr_t list \<Rightarrow> error + RangeImpl" where
  "RangeImpl_init D l = (if D = length l then Inr l else Inl AssertionFailed)"

text \<open>
  \<^verbatim>\<open>using std::vector<std::intptr_t>::vector;\<close> makes the constructors of the vector
  constructors of \<^verbatim>\<open>RangeImpl<Dimensions>\<close>: \<^verbatim>\<open>vector(size_type n)\<close> builds \<open>n\<close> zeros and
  \<^verbatim>\<open>vector(size_type n, const value_type &v)\<close> builds \<open>n\<close> copies of \<open>v\<close>. Neither looks at
  \<^verbatim>\<open>Dimensions\<close>.
\<close>

definition RangeImpl_count :: "nat \<Rightarrow> nat \<Rightarrow> RangeImpl" where
  "RangeImpl_count D n = replicate n 0"

definition RangeImpl_fill :: "nat \<Rightarrow> nat \<Rightarrow> intptr_t \<Rightarrow> RangeImpl" where
  "RangeImpl_fill D n v = replicate n v"

text \<open>\<^verbatim>\<open>IdImpl(const RangeImpl<N> &init) : RangeImpl<N>(init) {}\<close> and \<^verbatim>\<open>IdImpl() = default\<close>\<close>

definition IdImpl_of_range :: "nat \<Rightarrow> RangeImpl \<Rightarrow> IdImpl" where
  "IdImpl_of_range N init = RangeImpl_copy N init"

definition IdImpl_default :: "nat \<Rightarrow> IdImpl" where
  "IdImpl_default N = RangeImpl_default N"

subsection \<open>Element-wise operators\<close>

text \<open>
  \<^verbatim>\<open>operator /\<close>: the result is default-constructed, then
  \<^verbatim>\<open>for (int i = 0; i < Dimensions; i++) result[i] = (dividend[i] + divisor[i] - 1)/divisor[i];\<close>
\<close>

function range_div_loop ::
  "nat \<Rightarrow> nat \<Rightarrow> RangeImpl \<Rightarrow> RangeImpl \<Rightarrow> RangeImpl \<Rightarrow> error + RangeImpl" where
  "range_div_loop D i dividend divisor result =
     (if i < D then
        (case subscript dividend i of Inl e \<Rightarrow> Inl e | Inr x \<Rightarrow>
        (case subscript divisor i of Inl e \<Rightarrow> Inl e | Inr y \<Rightarrow>
        (case intptr_div (x + y - 1) y of Inl e \<Rightarrow> Inl e | Inr q \<Rightarrow>
           range_div_loop D (Suc i) dividend divisor (result[i := q]))))
      else Inr result)"
  by pat_completeness auto
termination
  by (relation "measure (\<lambda>(D, i, _). D - i)") auto

declare range_div_loop.simps [simp del]

definition range_div :: "nat \<Rightarrow> RangeImpl \<Rightarrow> RangeImpl \<Rightarrow> error + RangeImpl" where
  "range_div D dividend divisor = range_div_loop D 0 dividend divisor (RangeImpl_default D)"

text \<open>\<^verbatim>\<open>operator *\<close>: \<^verbatim>\<open>result[i] = a[i] * b[i]\<close>\<close>

function range_mul_loop ::
  "nat \<Rightarrow> nat \<Rightarrow> RangeImpl \<Rightarrow> RangeImpl \<Rightarrow> RangeImpl \<Rightarrow> error + RangeImpl" where
  "range_mul_loop D i a b result =
     (if i < D then
        (case subscript a i of Inl e \<Rightarrow> Inl e | Inr x \<Rightarrow>
        (case subscript b i of Inl e \<Rightarrow> Inl e | Inr y \<Rightarrow>
           range_mul_loop D (Suc i) a b (result[i := x * y])))
      else Inr result)"
  by pat_completeness auto
termination
  by (relation "measure (\<lambda>(D, i, _). D - i)") auto

declare range_mul_loop.simps [simp del]

definition range_mul :: "nat \<Rightarrow> RangeImpl \<Rightarrow> RangeImpl \<Rightarrow> error + RangeImpl" where
  "range_mul D a b = range_mul_loop D 0 a b (RangeImpl_default D)"

text \<open>\<^verbatim>\<open>operator +\<close>: \<^verbatim>\<open>result[i] = a[i] + b[i]\<close>\<close>

function range_add_loop ::
  "nat \<Rightarrow> nat \<Rightarrow> RangeImpl \<Rightarrow> RangeImpl \<Rightarrow> RangeImpl \<Rightarrow> error + RangeImpl" where
  "range_add_loop D i a b result =
     (if i < D then
        (case subscript a i of Inl e \<Rightarrow> Inl e | Inr x \<Rightarrow>
        (case subscript b i of Inl e \<Rightarrow> Inl e | Inr y \<Rightarrow>
           range_add_loop D (Suc i) a b (result[i := x + y])))
      else Inr result)"
  by pat_completeness auto
termination
  by (relation "measure (\<lambda>(D, i, _). D - i)") auto

declare range_add_loop.simps [simp del]

definition range_add :: "nat \<Rightarrow> RangeImpl \<Rightarrow> RangeImpl \<Rightarrow> error + RangeImpl" where
  "range_add D a b = range_add_loop D 0 a b (RangeImpl_default D)"

text \<open>
  Two notions for the statements about \<^verbatim>\<open>operator /\<close>: the component pairs on which the
  division does not trap, and the quotient the loop stores for such a pair.
\<close>

definition no_trap :: "intptr_t \<Rightarrow> intptr_t \<Rightarrow> bool" where
  "no_trap x y \<longleftrightarrow> y \<noteq> 0 \<and> \<not> (sint (x + y - 1) = - (2 ^ 63) \<and> sint y = - 1)"

definition ceil_quot :: "intptr_t \<Rightarrow> intptr_t \<Rightarrow> intptr_t" where
  "ceil_quot x y = word_of_int (sint (x + y - 1) sdiv sint y)"

section \<open>NDRangeImpl\<close>

record NDRangeImpl =
  GlobalRange :: RangeImpl
  LocalRange :: RangeImpl
  Offset :: IdImpl

text \<open>\<^verbatim>\<open>NDRangeImpl(global_size, local_size, offset)\<close> copies its three arguments.\<close>

definition NDRangeImpl_ctor :: "nat \<Rightarrow> RangeImpl \<Rightarrow> RangeImpl \<Rightarrow> IdImpl \<Rightarrow> NDRangeImpl" where
  "NDRangeImpl_ctor dims global_size local_size offset =
     \<lparr>GlobalRange = RangeImpl_copy dims global_size,
      LocalRange = RangeImpl_copy dims local_size,
      Offset = RangeImpl_copy dims offset\<rparr>"

definition get_global_range :: "NDRangeImpl \<Rightarrow> RangeImpl" where
  "get_global_range ndr = GlobalRange ndr"

definition get_local_range :: "NDRangeImpl \<Rightarrow> RangeImpl" where
  "get_local_range ndr = LocalRange ndr"

text \<open>\<^verbatim>\<open>get_group_range() { return GlobalRange/LocalRange; }\<close>\<close>

definition get_group_range :: "nat \<Rightarrow> NDRangeImpl \<Rightarrow> error + RangeImpl" where
  "get_group_range dims ndr = range_div dims (GlobalRange ndr) (LocalRange ndr)"

definition get_offset :: "NDRangeImpl \<Rightarrow> IdImpl" where
  "get_offset ndr = Offset ndr"

section \<open>The interface classes\<close>

text \<open>
  Modelled from the spec: \<^verbatim>\<open>SmallArray123\<close>, on which the interface header builds
  \<^verbatim>\<open>range<dims>\<close> (of \<^verbatim>\<open>std::size_t\<close>) and \<^verbatim>\<open>id<dims>\<close> (of \<^verbatim>\<open>std::ptrdiff_t\<close>), is declared in
  a header that is not among the files of the repository at hand. It is the coordinate
  of the data model: a fixed-rank vector with the element-wise \<open>+\<close> and \<open>*\<close> of section
  4.1, which are the operators \<open>range_add\<close> and \<open>range_mul\<close> above. Its \<open>/\<close> is not taken
  from anywhere: where an interface class divides, the operator is a parameter of the
  model. \<^verbatim>\<open>nd_range<dims>\<close> has the members of \<^verbatim>\<open>NDRangeImpl\<close> and its queries
  \<open>get_global_range\<close>, \<open>get_local_range\<close> and \<open>get_offset\<close>.
\<close>

type_synonym range = "size_t list"
type_synonym id = "intptr_t list"
type_synonym nd_range = NDRangeImpl

text \<open>A subscript with an \<^verbatim>\<open>int\<close> argument: a negative one is outside every array.\<close>

definition subscript_int :: "'a list \<Rightarrow> int \<Rightarrow> error + 'a" where
  "subscript_int v i = (if 0 \<le> i then subscript v (nat i) else Inl OutOfRange)"

subsection \<open>item\<close>

record item =
  item_Range :: range
  item_GlobalIndex :: id
  item_Offset :: id

definition item_ctor :: "range \<Rightarrow> id \<Rightarrow> id \<Rightarrow> item" where
  "item_ctor global_size global_index offset =
     \<lparr>item_Range = global_size, item_GlobalIndex = global_index, item_Offset = offset\<rparr>"

text \<open>\<^verbatim>\<open>id<dims> get_global_id() const { return GlobalIndex; }\<close>\<close>

definition item_get_global_id :: "item \<Rightarrow> id" where
  "item_get_global_id it = item_GlobalIndex it"

text \<open>\<^verbatim>\<open>size_t get(int dimension) const { return GlobalIndex[dimension]; }\<close>\<close>

definition item_get :: "item \<Rightarrow> int \<Rightarrow> error + size_t" where
  "item_get it dimension =
     (case subscript_int (item_GlobalIndex it) dimension of
        Inl e \<Rightarrow> Inl e
      | Inr x \<Rightarrow> Inr (size_t_of_intptr x))"

subsection \<open>The work-item and the group\<close>

record nd_item =
  nd_GlobalIndex :: id
  nd_LocalIndex :: id
  nd_NDRange :: nd_range

text \<open>\<^verbatim>\<open>nd_item(id<dims> global_index, id<dims> local_index, nd_range<dims> ndr)\<close>\<close>

definition nd_item_ctor :: "id \<Rightarrow> id \<Rightarrow> nd_range \<Rightarrow> nd_item" where
  "nd_item_ctor global_index local_index ndr =
     \<lparr>nd_GlobalIndex = global_index, nd_LocalIndex = local_index, nd_NDRange = ndr\<rparr>"

definition nd_item_get_global_id :: "nd_item \<Rightarrow> id" where
  "nd_item_get_global_id it = nd_GlobalIndex it"

definition nd_item_get_local_id :: "nd_item \<Rightarrow> id" where
  "nd_item_get_local_id it = nd_LocalIndex it"

definition nd_item_get_local_range :: "nd_item \<Rightarrow> range" where
  "nd_item_get_local_range it = get_local_range (nd_NDRange it)"

definition nd_item_get_offset :: "nd_item \<Rightarrow> id" where
  "nd_item_get_offset it = get_offset (nd_NDRange it)"

text \<open>
  \<^verbatim>\<open>id<dims> get_group_id() const { return get_global_id()/get_local_range(); }\<close>: the
  \<open>/\<close> of an \<^verbatim>\<open>id<dims>\<close> by a \<^verbatim>\<open>range<dims>\<close> is the operator of \<^verbatim>\<open>SmallArray123\<close>; it is the
  parameter \<open>dv\<close>.
\<close>

definition nd_item_get_group_id :: "(id \<Rightarrow> range \<Rightarrow> error + id) \<Rightarrow> nd_item \<Rightarrow> error + id" where
  "nd_item_get_group_id dv it = dv (nd_item_get_global_id it) (nd_item_get_local_range it)"

text \<open>
  One reading of that operator, used to state when the relationship between the queries
  holds: the plain element-wise quotient of the integer type, which truncates and traps
  as \<open>intptr_div\<close> does.
\<close>

definition truncating_quotient :: "nat \<Rightarrow> id \<Rightarrow> range \<Rightarrow> error + id" where
  "truncating_quotient dims a b =
     (if length a < dims \<or> length b < dims then Inl OutOfRange
      else if list_all (\<lambda>i. b ! i \<noteq> 0 \<and> \<not> (sint (a ! i) = - (2 ^ 63) \<and> sint (b ! i) = - 1))
                [0..<dims]
      then Inr (map (\<lambda>i. word_of_int (sint (a ! i) sdiv sint (b ! i))) [0..<dims])
      else Inl ArithmeticTrap)"

record group =
  group_NDR :: nd_range
  group_Id :: id

text \<open>\<^verbatim>\<open>group(const nd_range<dims> &ndr, const id<dims> &i) : NDR(ndr), Id(i) {}\<close>\<close>

definition group_ctor :: "nd_range \<Rightarrow> id \<Rightarrow> group" where
  "group_ctor ndr i = \<lparr>group_NDR = ndr, group_Id = i\<rparr>"

text \<open>
  Modelled from the spec: the launcher behind \<^verbatim>\<open>parallel_for_workitem\<close>
  (\<^verbatim>\<open>ParallelForWorkitem\<close>), which is declared in the same missing header. Section 4.4 of
  the spec gives what it builds for a local coordinate of a group: the global index
  \<open>group_id * local + local_index + offset\<close>, and the work-item made of that global
  index, the local index and the group's space.
\<close>

definition for_each_item_global_index :: "nat \<Rightarrow> group \<Rightarrow> id \<Rightarrow> error + id" where
  "for_each_item_global_index dims g local_index =
     (case range_mul dims (group_Id g) (get_local_range (group_NDR g)) of
        Inl e \<Rightarrow> Inl e
      | Inr gl \<Rightarrow>
          (case range_add dims gl local_index of
             Inl e \<Rightarrow> Inl e
           | Inr gll \<Rightarrow> range_add dims gll (get_offset (group_NDR g))))"

definition for_each_item_in_group :: "nat \<Rightarrow> group \<Rightarrow> id \<Rightarrow> error + nd_item" where
  "for_each_item_in_group dims g local_index =
     (case for_each_item_global_index dims g local_index of
        Inl e \<Rightarrow> Inl e
      | Inr global_index \<Rightarrow> Inr (nd_item_ctor global_index local_index (group_NDR g)))"

text \<open>
  The right-hand side of the relationship between the queries of a work-item,
  \<open>group_id * get_local_range() + get_local_id() + get_offset()\<close>, for a given group id,
  and the relationship itself for the group id that \<open>get_group_id()\<close> returns.
\<close>

definition derived_global_id :: "nat \<Rightarrow> id \<Rightarrow> nd_item \<Rightarrow> error + id" where
  "derived_global_id dims group_id it =
     (case range_mul dims group_id (nd_item_get_local_range it) of
        Inl e \<Rightarrow> Inl e
      | Inr gl \<Rightarrow>
          (case range_add dims gl (nd_item_get_local_id it) of
             Inl e \<Rightarrow> Inl e
           | Inr gll \<Rightarrow> range_add dims gll (nd_item_get_offset it)))"

definition relation_holds :: "(id \<Rightarrow> range \<Rightarrow> error + id) \<Rightarrow> nat \<Rightarrow> nd_item \<Rightarrow> bool" where
  "relation_holds dv dims it \<longleftrightarrow>
     (case nd_item_get_group_id dv it of
        Inl e \<Rightarrow> False
      | Inr group_id \<Rightarrow> derived_global_id dims group_id it = Inr (nd_item_get_global_id it))"

section \<open>The recursive iterator\<close>

text \<open>
  The loop statement of \<^verbatim>\<open>ParallelForIterate\<close>,
  \<^verbatim>\<open>for (index _sycl_index = 0, _sycl_end = ...; _sycl_index < _sycl_end; _sycl_index++)\<close>,
  over a loop state \<open>st\<close>; \<^verbatim>\<open>boost::multi_array_types::index\<close> is \<^verbatim>\<open>std::ptrdiff_t\<close>, so the
  comparison is signed. The loop ends because the index stays below \<open>sycl_end\<close>, which is
  at most the largest signed value: the increment never wraps.
\<close>

function for_loop ::
  "intptr_t \<Rightarrow> intptr_t \<Rightarrow> (intptr_t \<Rightarrow> 'st \<Rightarrow> error + 'st) \<Rightarrow> 'st \<Rightarrow> error + 'st" where
  "for_loop sycl_index sycl_end body st =
     (if sycl_index <s sycl_end then
        (case body sycl_index st of
           Inl e \<Rightarrow> Inl e
         | Inr st' \<Rightarrow> for_loop (sycl_index + 1) sycl_end body st')
      else Inr st)"
  by pat_completeness auto
termination
proof (relation "measure (\<lambda>(i, e, _, _). nat (sint e - sint i))")
  show "wf (measure (\<lambda>(i, e, _, _). nat (sint (e :: intptr_t) - sint (i :: intptr_t))))"
    by simp
next
  fix sycl_index sycl_end :: intptr_t
    and body :: "intptr_t \<Rightarrow> 'st \<Rightarrow> error + 'st" and st x2 :: 'st
  assume below: "sycl_index <s sycl_end"
  have "sint sycl_end < 2 ^ 63"
    using sint_lt [of sycl_end] by simp
  then have lt: "sint sycl_index + 1 < 2 ^ 63"
    using below by (simp add: word_sless_alt)
  have ge: "- (2 ^ 63) \<le> sint sycl_index"
    using sint_ge [of sycl_index] by simp
  have "sycl_index + 1 = word_of_int (sint sycl_index + 1)"
    by simp
  then have "sint (sycl_index + 1) = signed_take_bit 63 (sint sycl_index + 1)"
    by (simp only: sint_sbintrunc') simp
  also have "\<dots> = sint sycl_index + 1"
    using lt ge by (intro signed_take_bit_int_eq_self) auto
  finally have "sint (sycl_index + 1) = sint sycl_index + 1" .
  then show "((sycl_index + 1, sycl_end, body, x2), (sycl_index, sycl_end, body, st))
      \<in> measure (\<lambda>(i, e, _, _). nat (sint e - sint i))"
    using below by (simp add: word_sless_alt)
qed

declare for_loop.simps [simp del]

text \<open>
  \<^verbatim>\<open>ParallelForIterate<level, Range, ParallelForFunctor, Id>\<close>: \<open>level\<close> is the template
  argument, \<open>D\<close> is \<^verbatim>\<open>Range::dimensionality\<close>, the kernel functor \<open>f\<close> acts on a state \<open>s\<close>, and
  the index is passed by reference, so it is part of what a call returns. The
  specialisation for level 0 calls \<open>f(index)\<close>. \<^verbatim>\<open>Range::dimensionality - level\<close> is unsigned:
  a level above \<open>D\<close> subscripts outside the range.
\<close>

fun ParallelForIterate ::
  "nat \<Rightarrow> nat \<Rightarrow> RangeImpl \<Rightarrow> (IdImpl \<Rightarrow> 's \<Rightarrow> 's) \<Rightarrow> IdImpl \<times> 's \<Rightarrow> error + IdImpl \<times> 's" where
  "ParallelForIterate 0 D r f (index, s) = Inr (index, f index s)"
| "ParallelForIterate (Suc level) D r f (index, s) =
     (if D < Suc level then Inl OutOfRange
      else
        (case subscript r (D - Suc level) of
           Inl e \<Rightarrow> Inl e
         | Inr sycl_end \<Rightarrow>
             for_loop 0 sycl_end
               (\<lambda>sycl_index (index, s).
                  if D - Suc level < length index
                  then ParallelForIterate level D r f (index[D - Suc level := sycl_index], s)
                  else Inl OutOfRange)
               (index, s)))"

subsection \<open>The index box\<close>

text \<open>
  The indices of the box \<open>[0, r[0]) x ... x [0, r[D-1])\<close>, listed with the first dimension
  outermost; \<open>in_box\<close> is membership in the box stated on the components, and \<open>lex_less\<close> the
  lexicographic order of two indices, dimension 0 first, on the signed components.
\<close>

fun box :: "RangeImpl \<Rightarrow> IdImpl list" where
  "box [] = [[]]"
| "box (e # es) = concat (map (\<lambda>k. map ((#) (word_of_nat k)) (box es)) [0..<nat (sint e)])"

definition in_box :: "RangeImpl \<Rightarrow> IdImpl \<Rightarrow> bool" where
  "in_box r i \<longleftrightarrow>
     length i = length r \<and> (\<forall>d<length r. 0 \<le> sint (i ! d) \<and> sint (i ! d) < sint (r ! d))"

fun lex_less :: "IdImpl \<Rightarrow> IdImpl \<Rightarrow> bool" where
  "lex_less (x # xs) (y # ys) \<longleftrightarrow> x <s y \<or> (x = y \<and> lex_less xs ys)"
| "lex_less _ _ \<longleftrightarrow> False"

text \<open>
  For the proofs: a loop body run over a list of index values, the indices a call at a
  level visits (the prefix of the index that the outer levels have set, followed by a
  point of the box of the remaining dimensions), and what a call at a level does.
\<close>

fun fold_err :: "('a \<Rightarrow> 'st \<Rightarrow> error + 'st) \<Rightarrow> 'a list \<Rightarrow> 'st \<Rightarrow> error + 'st" where
  "fold_err body [] st = Inr st"
| "fold_err body (x # xs) st =
     (case body x st of Inl e \<Rightarrow> Inl e | Inr st' \<Rightarrow> fold_err body xs st')"

definition visits :: "nat \<Rightarrow> nat \<Rightarrow> RangeImpl \<Rightarrow> IdImpl \<Rightarrow> IdImpl list" where
  "visits level D r index = map ((@) (take (D - level) index)) (box (drop (D - level) r))"

definition iter_ok ::
  "nat \<Rightarrow> nat \<Rightarrow> RangeImpl \<Rightarrow> (IdImpl \<Rightarrow> 's \<Rightarrow> 's) \<Rightarrow> bool" where
  "iter_ok level D r f \<longleftrightarrow>
     (\<forall>index s. length index = D \<longrightarrow>
        (\<exists>index'. ParallelForIterate level D r f (index, s) =
                     Inr (index', fold f (visits level D r index) s) \<and>
                   length index' = D \<and>
                   take (D - level) index' = take (D - level) index))"

section \<open>Buffers and accessors\<close>

subsection \<open>Memory\<close>

text \<open>
  The element storage the buffers and the host share: a store is the list of its memory
  blocks, a pointer names a block and an offset into it, and an allocation appends a
  block. An access outside the block a pointer names has no defined result.
\<close>

type_synonym 'a store = "'a list list"

record pointer =
  block :: nat
  offs :: nat

definition alloc :: "'a list \<Rightarrow> 'a store \<Rightarrow> pointer \<times> 'a store" where
  "alloc elems s = (\<lparr>block = length s, offs = 0\<rparr>, s @ [elems])"

definition load :: "pointer \<Rightarrow> nat \<Rightarrow> 'a store \<Rightarrow> error + 'a" where
  "load p k s =
     (if block p < length s \<and> offs p + k < length (s ! block p)
      then Inr (s ! block p ! (offs p + k)) else Inl InvalidMemory)"

definition store_elem :: "pointer \<Rightarrow> nat \<Rightarrow> 'a \<Rightarrow> 'a store \<Rightarrow> error + 'a store" where
  "store_elem p k v s =
     (if block p < length s \<and> offs p + k < length (s ! block p)
      then Inr (s[block p := (s ! block p)[offs p + k := v]]) else Inl InvalidMemory)"

definition load_range :: "pointer \<Rightarrow> nat \<Rightarrow> 'a store \<Rightarrow> error + 'a list" where
  "load_range p n s =
     (if block p < length s \<and> offs p + n \<le> length (s ! block p)
      then Inr (take n (drop (offs p) (s ! block p))) else Inl InvalidMemory)"

subsection \<open>Array views\<close>

text \<open>
  A \<^verbatim>\<open>boost::multi_array_ref<T, dimensions>\<close> is a base pointer and a shape; it owns nothing
  and copying it copies the pointer. The elements lie in row-major order (the default
  storage order), and the element access asserts that every index is inside its extent
  (range checking is on: \<^verbatim>\<open>BOOST_DISABLE_ASSERTS\<close> is not defined). It reads as many
  indices as the array has dimensions.
\<close>

record multi_array_ref =
  base :: pointer
  shape :: "nat list"

definition num_elements :: "multi_array_ref \<Rightarrow> nat" where
  "num_elements a = prod_list (shape a)"

fun element_offset :: "nat list \<Rightarrow> intptr_t list \<Rightarrow> error + nat" where
  "element_offset [] indices = Inr 0"
| "element_offset (n # ns) [] = Inl OutOfRange"
| "element_offset (n # ns) (i # indices) =
     (if 0 \<le> sint i \<and> nat (sint i) < n then
        (case element_offset ns indices of
           Inl e \<Rightarrow> Inl e
         | Inr k \<Rightarrow> Inr (nat (sint i) * prod_list ns + k))
      else Inl AssertionFailed)"

subsection \<open>BufferImpl\<close>

text \<open>
  \<open>Allocation\<close> is the \<^verbatim>\<open>boost::multi_array\<close> the buffer owns (\<open>None\<close>: default-constructed,
  no storage), \<open>Access\<close> the view every accessor copies. \<open>ReadOnly\<close> is \<open>None\<close> when no
  constructor initialiser has given the member a value. The range of a constructor is
  taken with one extent per dimension of the buffer.
\<close>

record BufferImpl =
  Allocation :: "multi_array_ref option"
  Access :: multi_array_ref
  ReadOnly :: "bool option"

text \<open>
  \<^verbatim>\<open>BufferImpl(RangeImpl<dimensions> const &r) : Allocation(r), Access(Allocation), ReadOnly(false)\<close>;
  \<open>dflt\<close> is the value-initialised element \<^verbatim>\<open>T()\<close>.
\<close>

definition BufferImpl_range :: "'a \<Rightarrow> RangeImpl \<Rightarrow> 'a store \<Rightarrow> BufferImpl \<times> 'a store" where
  "BufferImpl_range dflt r s =
     (let sh = map unat r; (p, s') = alloc (replicate (prod_list sh) dflt) s
      in (\<lparr>Allocation = Some \<lparr>base = p, shape = sh\<rparr>,
           Access = \<lparr>base = p, shape = sh\<rparr>, ReadOnly = Some False\<rparr>, s'))"

text \<open>\<^verbatim>\<open>BufferImpl(T * host_data, RangeImpl<dimensions> r) : Access(host_data, r), ReadOnly(false)\<close>\<close>

definition BufferImpl_host :: "pointer \<Rightarrow> RangeImpl \<Rightarrow> BufferImpl" where
  "BufferImpl_host host_data r =
     \<lparr>Allocation = None, Access = \<lparr>base = host_data, shape = map unat r\<rparr>,
      ReadOnly = Some False\<rparr>"

text \<open>
  \<^verbatim>\<open>BufferImpl(const T * host_data, RangeImpl<dimensions> r) : Access(host_data, r), ReadOnly(true)\<close>
\<close>

definition BufferImpl_const_host :: "pointer \<Rightarrow> RangeImpl \<Rightarrow> BufferImpl" where
  "BufferImpl_const_host host_data r =
     \<lparr>Allocation = None, Access = \<lparr>base = host_data, shape = map unat r\<rparr>,
      ReadOnly = Some True\<rparr>"

text \<open>
  \<^verbatim>\<open>BufferImpl(const T * start_iterator, const T * end_iterator)\<close>: the allocation has
  \<^verbatim>\<open>std::distance(start_iterator, end_iterator)\<close> elements, \<open>Access\<close> views it, and
  \<^verbatim>\<open>Allocation.assign\<close> copies the elements in. The initialiser list has no entry for
  \<open>ReadOnly\<close>. The two pointers must delimit a part of one block.
\<close>

definition BufferImpl_iterators ::
  "pointer \<Rightarrow> pointer \<Rightarrow> 'a store \<Rightarrow> error + BufferImpl \<times> 'a store" where
  "BufferImpl_iterators start_iterator end_iterator s =
     (if block start_iterator = block end_iterator \<and> offs start_iterator \<le> offs end_iterator
      then
        (let distance = offs end_iterator - offs start_iterator in
         case load_range start_iterator distance s of
           Inl e \<Rightarrow> Inl e
         | Inr elems \<Rightarrow>
             (let (p, s') = alloc elems s
              in Inr (\<lparr>Allocation = Some \<lparr>base = p, shape = [distance]\<rparr>,
                       Access = \<lparr>base = p, shape = [distance]\<rparr>,
                       ReadOnly = None\<rparr>, s')))
      else Inl InvalidMemory)"

text \<open>
  \<^verbatim>\<open>BufferImpl(const BufferImpl<T, dimensions> &b) : Allocation(b.Access), Access(Allocation), ReadOnly(false)\<close>:
  a \<^verbatim>\<open>boost::multi_array\<close> constructed from a view allocates storage of the view's shape
  and copies the view's elements into it.
\<close>

definition BufferImpl_copy :: "BufferImpl \<Rightarrow> 'a store \<Rightarrow> error + BufferImpl \<times> 'a store" where
  "BufferImpl_copy b s =
     (case load_range (base (Access b)) (num_elements (Access b)) s of
        Inl e \<Rightarrow> Inl e
      | Inr elems \<Rightarrow>
          (let (p, s') = alloc elems s
           in Inr (\<lparr>Allocation = Some \<lparr>base = p, shape = shape (Access b)\<rparr>,
                    Access = \<lparr>base = p, shape = shape (Access b)\<rparr>,
                    ReadOnly = Some False\<rparr>, s')))"

subsection \<open>AccessorImpl\<close>

text \<open>The access modes and targets of namespace \<^verbatim>\<open>access\<close>.\<close>

datatype mode = access_read | access_write | access_atomic | access_read_write
  | access_discard_read_write

datatype target = access_global_buffer | access_constant_buffer | access_local | access_image
  | access_host_buffer | access_host_image | access_image_array | access_cl_buffer
  | access_cl_image

text \<open>
  The mode and the target are template arguments of the accessor; its one member is the
  view. \<^verbatim>\<open>AccessorImpl(BufferImpl<T, dimensions> &targetBuffer) : Array(targetBuffer.Access) {}\<close>
\<close>

record AccessorImpl =
  Array :: multi_array_ref
  accessor_mode :: mode
  accessor_target :: target

definition AccessorImpl_ctor :: "mode \<Rightarrow> target \<Rightarrow> BufferImpl \<Rightarrow> AccessorImpl" where
  "AccessorImpl_ctor m t targetBuffer =
     \<lparr>Array = Access targetBuffer, accessor_mode = m, accessor_target = t\<rparr>"

text \<open>\<^verbatim>\<open>get_access() { return { *this }; }\<close>\<close>

definition get_access :: "mode \<Rightarrow> target \<Rightarrow> BufferImpl \<Rightarrow> AccessorImpl" where
  "get_access m t b = AccessorImpl_ctor m t b"

text \<open>
  \<^verbatim>\<open>operator[](IdImpl<dimensionality> Index) const\<close> casts the view to its writable type and
  returns a reference to the element \<^verbatim>\<open>Array(Index)\<close>: reading the reference and assigning
  to it are the two functions below. The overload for an \<^verbatim>\<open>ItemImpl\<close> passes
  \<^verbatim>\<open>Index.get_global()\<close>, and the overload for a \<^verbatim>\<open>std::size_t\<close> is the one-dimensional case.
\<close>

definition accessor_read :: "AccessorImpl \<Rightarrow> IdImpl \<Rightarrow> 'a store \<Rightarrow> error + 'a" where
  "accessor_read a Index s =
     (case element_offset (shape (Array a)) Index of
        Inl e \<Rightarrow> Inl e
      | Inr k \<Rightarrow> load (base (Array a)) k s)"

definition accessor_write :: "AccessorImpl \<Rightarrow> IdImpl \<Rightarrow> 'a \<Rightarrow> 'a store \<Rightarrow> error + 'a store" where
  "accessor_write a Index v s =
     (case element_offset (shape (Array a)) Index of
        Inl e \<Rightarrow> Inl e
      | Inr k \<Rightarrow> store_elem (base (Array a)) k v s)"

section \<open>Properties of the coordinates\<close>

lemma intptr_div_no_trap:
  "no_trap x y \<Longrightarrow> intptr_div (x + y - 1) y = Inr (ceil_quot x y)"
  by (simp add: intptr_div_def no_trap_def ceil_quot_def)

lemma range_div_loop_ok:
  assumes "length dividend = D" "length divisor = D" "length result = D"
    and "\<forall>j. i \<le> j \<and> j < D \<longrightarrow> no_trap (dividend ! j) (divisor ! j)"
  shows "range_div_loop D i dividend divisor result =
           Inr (map (\<lambda>j. if j < i then result ! j
                          else ceil_quot (dividend ! j) (divisor ! j)) [0..<D])"
  using assms
proof (induction D i dividend divisor result rule: range_div_loop.induct)
  case (1 D i dividend divisor result)
  show ?case
  proof (cases "i < D")
    case False
    have "map (\<lambda>j. if j < i then result ! j else ceil_quot (dividend ! j) (divisor ! j)) [0..<D]
            = map ((!) result) [0..<D]"
      using False by (intro map_cong) auto
    also have "\<dots> = result"
      using "1.prems"(3) map_nth [of result] by simp
    finally show ?thesis
      using False by (subst range_div_loop.simps) simp
  next
    case True
    let ?q = "ceil_quot (dividend ! i) (divisor ! i)"
    have nt: "no_trap (dividend ! i) (divisor ! i)"
      using True "1.prems"(4) by simp
    have sub: "subscript dividend i = Inr (dividend ! i)"
      "subscript divisor i = Inr (divisor ! i)"
      using True "1.prems" by (simp_all add: subscript_def)
    have unfolded: "range_div_loop D i dividend divisor result =
                  range_div_loop D (Suc i) dividend divisor (result[i := ?q])"
      using True sub intptr_div_no_trap [OF nt]
      by (subst range_div_loop.simps) simp
    have IH: "range_div_loop D (Suc i) dividend divisor (result[i := ?q]) =
          Inr (map (\<lambda>j. if j < Suc i then result[i := ?q] ! j
                         else ceil_quot (dividend ! j) (divisor ! j)) [0..<D])"
      using "1.IH" [OF True sub(1) sub(2) intptr_div_no_trap [OF nt]] "1.prems" by simp
    have "map (\<lambda>j. if j < Suc i then result[i := ?q] ! j
                         else ceil_quot (dividend ! j) (divisor ! j)) [0..<D]
        = map (\<lambda>j. if j < i then result ! j
                    else ceil_quot (dividend ! j) (divisor ! j)) [0..<D]"
      using True "1.prems"(3) by (intro map_cong) (auto simp: less_Suc_eq)
    with unfolded IH show ?thesis by simp
  qed
qed

lemma range_div_ok:
  assumes "length dividend = D" "length divisor = D"
    and "\<forall>j<D. no_trap (dividend ! j) (divisor ! j)"
  shows "range_div D dividend divisor =
           Inr (map (\<lambda>j. ceil_quot (dividend ! j) (divisor ! j)) [0..<D])"
  using range_div_loop_ok [of dividend D divisor "RangeImpl_default D" 0] assms
  by (simp add: range_div_def RangeImpl_default_def)

lemma sint_sum_pred:
  fixes x y :: intptr_t
  assumes "0 < sint x" "0 < sint y" "sint x + sint y - 1 < 2 ^ 63"
  shows "sint (x + y - 1) = sint x + sint y - 1"
proof -
  have "x + y - 1 = word_of_int (sint x + sint y - 1)"
    by simp
  then have "sint (x + y - 1) = signed_take_bit 63 (sint x + sint y - 1)"
    by (simp only: sint_sbintrunc') simp
  also have "\<dots> = sint x + sint y - 1"
    using assms by (intro signed_take_bit_int_eq_self) auto
  finally show ?thesis .
qed

lemma ceiling_as_div:
  fixes a b :: int
  assumes "0 < b"
  shows "\<lceil>real_of_int a / real_of_int b\<rceil> = (a + b - 1) div b"
proof -
  define q where "q = (a + b - 1) div b"
  define r where "r = (a + b - 1) mod b"
  have r: "0 \<le> r" "r < b"
    using assms by (simp_all add: r_def)
  have "a + b - 1 = b * q + r"
    by (simp add: q_def r_def)
  then have "- a = b * (- q) + (b - 1 - r)"
    by (simp add: algebra_simps)
  then have "(- a) div b = - q"
    using r by (intro int_div_pos_eq [where r = "b - 1 - r"]) auto
  then show ?thesis
    by (simp add: ceiling_divide_eq_div q_def)
qed

lemma sdiv_nonneg:
  fixes a b :: int
  assumes "0 \<le> a" "0 < b"
  shows "a sdiv b = a div b"
  using assms by (cases "a = 0") (simp_all add: signed_divide_int_def)

lemma ceil_quot_ceiling:
  fixes x y :: intptr_t
  assumes "0 < sint x" "0 < sint y" "sint x + sint y - 1 < 2 ^ 63"
  shows "sint (ceil_quot x y) = \<lceil>real_of_int (sint x) / real_of_int (sint y)\<rceil>"
proof -
  let ?n = "sint x + sint y - 1"
  have s: "sint (x + y - 1) = ?n"
    by (rule sint_sum_pred [OF assms])
  have n0: "0 \<le> ?n"
    using assms by simp
  have q: "?n sdiv sint y = ?n div sint y"
    using n0 assms(2) by (rule sdiv_nonneg)
  have n1: "0 < ?n"
    using assms by simp
  have le: "?n div sint y \<le> ?n"
    by (rule int_div_le_self [OF n1])
  have ge: "0 \<le> ?n div sint y"
    using n0 assms(2) by (simp add: pos_imp_zdiv_nonneg_iff)
  have "sint (ceil_quot x y) = signed_take_bit 63 (?n div sint y)"
    by (simp add: ceil_quot_def s q sint_sbintrunc')
  also have "\<dots> = ?n div sint y"
    using le ge assms(3) by (intro signed_take_bit_int_eq_self) auto
  also have "\<dots> = \<lceil>real_of_int (sint x) / real_of_int (sint y)\<rceil>"
    using ceiling_as_div [OF assms(2), of "sint x"] by simp
  finally show ?thesis .
qed

lemma no_trap_positive:
  fixes x y :: intptr_t
  assumes "0 < sint y"
  shows "no_trap x y"
  using assms by (auto simp: no_trap_def)

lemmas coordinate_simps =
  range_div_def range_div_loop.simps range_mul_def range_mul_loop.simps
  range_add_def range_add_loop.simps RangeImpl_default_def RangeImpl_copy_def
  subscript_def intptr_div_def signed_divide_int_def

text \<open>
  Claim C5, as amended. For coordinates \<open>a\<close> and \<open>b\<close> of rank \<open>D\<close> on which no component
  division traps, the element-wise division returns a coordinate of rank \<open>D\<close> whose
  component \<open>i\<close> is \<open>(a[i] + b[i] - 1) / b[i]\<close> in 64-bit arithmetic, the sum wrapping around
  and the division truncating; where \<open>a[i]\<close> and \<open>b[i]\<close> are positive and
  \<open>a[i] + b[i] - 1\<close> does not exceed the largest signed value, that component is the
  mathematical ceiling of \<open>a[i] / b[i]\<close>.
\<close>

theorem range_div_ceiling:
  assumes "length a = D" "length b = D" "\<forall>i<D. no_trap (a ! i) (b ! i)"
  shows "\<exists>res. range_div D a b = Inr res \<and> length res = D \<and>
           (\<forall>i<D. res ! i = word_of_int (sint (a ! i + b ! i - 1) sdiv sint (b ! i)) \<and>
               (0 < sint (a ! i) \<and> 0 < sint (b ! i) \<and>
                sint (a ! i) + sint (b ! i) - 1 < 2 ^ 63 \<longrightarrow>
                  sint (res ! i) = \<lceil>real_of_int (sint (a ! i)) / real_of_int (sint (b ! i))\<rceil>))"
proof -
  let ?res = "map (\<lambda>j. ceil_quot (a ! j) (b ! j)) [0..<D]"
  have "range_div D a b = Inr ?res"
    by (rule range_div_ok [OF assms])
  moreover have "length ?res = D"
    by simp
  moreover have "?res ! i = word_of_int (sint (a ! i + b ! i - 1) sdiv sint (b ! i))"
    if "i < D" for i
    using that by (simp add: ceil_quot_def)
  moreover have "sint (?res ! i) = \<lceil>real_of_int (sint (a ! i)) / real_of_int (sint (b ! i))\<rceil>"
    if "i < D" "0 < sint (a ! i)" "0 < sint (b ! i)" "sint (a ! i) + sint (b ! i) - 1 < 2 ^ 63"
    for i
    using that ceil_quot_ceiling [of "a ! i" "b ! i"] by simp
  ultimately show ?thesis
    by blast
qed

text \<open>
  The amended claim C5 at \<open>a = {4, 5}\<close>, \<open>b = {2, 2}\<close>: the quotient is \<open>{2, 3}\<close>, the
  ceilings of \<open>4 / 2\<close> and \<open>5 / 2\<close>.
\<close>

theorem range_div_ceiling_witness:
  "\<exists>res. range_div 2 [4, 5] [2, 2] = Inr res \<and> length res = 2 \<and>
      sint (res ! 0) = \<lceil>real_of_int 4 / real_of_int 2\<rceil> \<and>
      sint (res ! 1) = \<lceil>real_of_int 5 / real_of_int 2\<rceil> \<and>
      sint (res ! 0) = 2 \<and> sint (res ! 1) = 3"
proof -
  have nt: "\<forall>i<2. no_trap ([4, 5] ! i) ([2, 2 :: intptr_t] ! i)"
    by (simp add: no_trap_def less_Suc_eq numeral_2_eq_2)
  from range_div_ceiling [of "[4, 5]" 2 "[2, 2]", OF _ _ nt]
  obtain res where r: "range_div 2 [4, 5] [2, 2] = Inr res" "length res = 2"
    and c: "\<forall>i<2. res ! i = word_of_int (sint ([4, 5] ! i + [2, 2] ! i - 1 :: intptr_t)
                                      sdiv sint ([2, 2 :: intptr_t] ! i)) \<and>
               (0 < sint ([4, 5 :: intptr_t] ! i) \<and> 0 < sint ([2, 2 :: intptr_t] ! i) \<and>
                sint ([4, 5 :: intptr_t] ! i) + sint ([2, 2 :: intptr_t] ! i) - 1 < 2 ^ 63 \<longrightarrow>
                  sint (res ! i) = \<lceil>real_of_int (sint ([4, 5 :: intptr_t] ! i))
                                     / real_of_int (sint ([2, 2 :: intptr_t] ! i))\<rceil>)"
    by auto
  from c [rule_format, of 0] c [rule_format, of 1] r show ?thesis
    by simp
qed

text \<open>
  Claim C5 as stated fails where the sum overflows: for the positive components
  \<open>a[0] = 2^63 - 1\<close> and \<open>b[0] = 2\<close> the sum \<open>a[0] + b[0] - 1\<close> wraps to \<open>- 2^63\<close> and the
  quotient is \<open>- 2^62\<close>, not the ceiling \<open>2^62\<close>. And no coordinate is returned where a
  component division traps: for \<open>b[0] = 0\<close>, and for \<open>a[0] = - 2^63 + 2\<close>, \<open>b[0] = - 1\<close>,
  where the quotient is \<open>INTPTR_MIN / -1\<close>.
\<close>

theorem range_div_overflow_counterexample:
  "0 < sint (0x7FFFFFFFFFFFFFFF :: intptr_t) \<and> 0 < sint (2 :: intptr_t) \<and>
   range_div 1 [0x7FFFFFFFFFFFFFFF] [2] = Inr [- 0x4000000000000000] \<and>
   sint (- 0x4000000000000000 :: intptr_t)
     \<noteq> \<lceil>real_of_int (sint (0x7FFFFFFFFFFFFFFF :: intptr_t)) / real_of_int (sint (2 :: intptr_t))\<rceil> \<and>
   range_div 1 [1] [0] = Inl ArithmeticTrap \<and>
   range_div 1 [- 0x7FFFFFFFFFFFFFFE] [- 1] = Inl ArithmeticTrap"
  by (simp add: coordinate_simps)

lemma ceil_quot_ceiling_nonneg:
  fixes x y :: intptr_t
  assumes "0 \<le> sint x" "0 < sint y" "sint x + sint y - 1 < 2 ^ 63"
  shows "sint (ceil_quot x y) = \<lceil>real_of_int (sint x) / real_of_int (sint y)\<rceil>"
proof -
  let ?n = "sint x + sint y - 1"
  have "x + y - 1 = word_of_int ?n"
    by simp
  then have "sint (x + y - 1) = signed_take_bit 63 ?n"
    by (simp only: sint_sbintrunc') simp
  also have "\<dots> = ?n"
    using assms by (intro signed_take_bit_int_eq_self) auto
  finally have s: "sint (x + y - 1) = ?n" .
  have n0: "0 \<le> ?n"
    using assms by simp
  have q: "?n sdiv sint y = ?n div sint y"
    using n0 assms(2) by (rule sdiv_nonneg)
  have le: "?n div sint y \<le> ?n"
  proof (cases "?n = 0")
    case True
    then show ?thesis by simp
  next
    case False
    then have "0 < ?n" using n0 by simp
    then show ?thesis by (rule int_div_le_self)
  qed
  have ge: "0 \<le> ?n div sint y"
    using n0 assms(2) by (simp add: pos_imp_zdiv_nonneg_iff)
  have "sint (ceil_quot x y) = signed_take_bit 63 (?n div sint y)"
    by (simp add: ceil_quot_def s q sint_sbintrunc')
  also have "\<dots> = ?n div sint y"
    using le ge assms(3) by (intro signed_take_bit_int_eq_self) auto
  also have "\<dots> = \<lceil>real_of_int (sint x) / real_of_int (sint y)\<rceil>"
    using ceiling_as_div [OF assms(2), of "sint x"] by simp
  finally show ?thesis .
qed

text \<open>
  Claim C6, as amended. For an ND-range built from a global size and a local size of
  rank \<open>dims\<close> (and any offset) in which every global component is non-negative, every
  local component is positive and no sum \<open>global[i] + local[i] - 1\<close> exceeds the largest
  signed value, the group range is returned, has rank \<open>dims\<close>, and its component \<open>i\<close> is
  the mathematical ceiling of \<open>global[i] / local[i]\<close>; in particular global \<open>{4, 4}\<close> with
  local \<open>{2, 2}\<close> gives \<open>{2, 2}\<close>.
\<close>

theorem get_group_range_ceiling_divide:
  "(length global_size = dims \<and> length local_size = dims \<and>
    (\<forall>i<dims. 0 \<le> sint (global_size ! i) \<and> 0 < sint (local_size ! i) \<and>
               sint (global_size ! i) + sint (local_size ! i) - 1 < 2 ^ 63) \<longrightarrow>
    (\<exists>res. get_group_range dims (NDRangeImpl_ctor dims global_size local_size offset) = Inr res \<and>
           length res = dims \<and>
           (\<forall>i<dims. sint (res ! i) =
              \<lceil>real_of_int (sint (global_size ! i)) / real_of_int (sint (local_size ! i))\<rceil>))) \<and>
   get_group_range 2 (NDRangeImpl_ctor 2 [4, 4] [2, 2] [0, 0]) = Inr [2, 2]"
proof -
  have eq: "get_group_range dims (NDRangeImpl_ctor dims global_size local_size offset)
              = range_div dims global_size local_size"
    by (simp add: get_group_range_def NDRangeImpl_ctor_def RangeImpl_copy_def)
  have ex: "get_group_range 2 (NDRangeImpl_ctor 2 [4, 4] [2, 2] [0, 0]) = Inr [2, 2]"
    by (simp add: get_group_range_def NDRangeImpl_ctor_def coordinate_simps numeral_2_eq_2)
  have ceil: "\<exists>res. get_group_range dims (NDRangeImpl_ctor dims global_size local_size offset)
                  = Inr res \<and> length res = dims \<and>
           (\<forall>i<dims. sint (res ! i) =
              \<lceil>real_of_int (sint (global_size ! i)) / real_of_int (sint (local_size ! i))\<rceil>)"
    if len: "length global_size = dims" "length local_size = dims"
      and pos: "\<forall>i<dims. 0 \<le> sint (global_size ! i) \<and> 0 < sint (local_size ! i) \<and>
               sint (global_size ! i) + sint (local_size ! i) - 1 < 2 ^ 63"
  proof -
    let ?res = "map (\<lambda>j. ceil_quot (global_size ! j) (local_size ! j)) [0..<dims]"
    have nt: "\<forall>j<dims. no_trap (global_size ! j) (local_size ! j)"
      using pos by (simp add: no_trap_positive)
    have "range_div dims global_size local_size = Inr ?res"
      by (rule range_div_ok [OF len nt])
    moreover have "sint (?res ! i) =
              \<lceil>real_of_int (sint (global_size ! i)) / real_of_int (sint (local_size ! i))\<rceil>"
      if "i < dims" for i
      using that pos ceil_quot_ceiling_nonneg [of "global_size ! i" "local_size ! i"] by simp
    ultimately show ?thesis
      using eq by auto
  qed
  from ex ceil show ?thesis
    by blast
qed

text \<open>
  The amended claim C6 at global \<open>{0, 5}\<close>, local \<open>{2, 2}\<close>: the group range is \<open>{0, 3}\<close>,
  the ceilings of \<open>0 / 2\<close> and \<open>5 / 2\<close>.
\<close>

theorem get_group_range_ceiling_divide_witness:
  "\<exists>res. get_group_range 2 (NDRangeImpl_ctor 2 [0, 5] [2, 2] [0, 0]) = Inr res \<and>
      res = [0, 3] \<and>
      sint (res ! 0) = \<lceil>real_of_int 0 / real_of_int 2\<rceil> \<and>
      sint (res ! 1) = \<lceil>real_of_int 5 / real_of_int 2\<rceil>"
proof -
  have pos: "\<forall>i<2. 0 \<le> sint ([0, 5 :: intptr_t] ! i) \<and> 0 < sint ([2, 2 :: intptr_t] ! i) \<and>
               sint ([0, 5 :: intptr_t] ! i) + sint ([2, 2 :: intptr_t] ! i) - 1 < 2 ^ 63"
    by (simp add: less_Suc_eq numeral_2_eq_2)
  have val: "get_group_range 2 (NDRangeImpl_ctor 2 [0, 5] [2, 2] [0, 0]) = Inr [0, 3]"
    by (simp add: get_group_range_def NDRangeImpl_ctor_def coordinate_simps numeral_2_eq_2)
  have hyp: "length [0, 5 :: intptr_t] = 2 \<and> length [2, 2 :: intptr_t] = 2 \<and>
    (\<forall>i<2. 0 \<le> sint ([0, 5 :: intptr_t] ! i) \<and> 0 < sint ([2, 2 :: intptr_t] ! i) \<and>
               sint ([0, 5 :: intptr_t] ! i) + sint ([2, 2 :: intptr_t] ! i) - 1 < 2 ^ 63)"
    using pos by simp
  from get_group_range_ceiling_divide [of "[0, 5]" 2 "[2, 2]" "[0, 0]",
      THEN conjunct1, THEN mp, OF hyp]
  obtain res where r: "get_group_range 2 (NDRangeImpl_ctor 2 [0, 5] [2, 2] [0, 0]) = Inr res"
    and c: "\<forall>i<2. sint (res ! i) =
              \<lceil>real_of_int (sint ([0, 5 :: intptr_t] ! i)) / real_of_int (sint ([2, 2 :: intptr_t] ! i))\<rceil>"
    by blast
  from c [rule_format, of 0] c [rule_format, of 1] r val show ?thesis
    by simp
qed

text \<open>
  Claim C6 as stated, for every space, fails: with global \<open>{2^63 - 1}\<close> and local \<open>{2}\<close> the
  sum overflows and the group range is \<open>{- 2^62}\<close>, not the ceiling \<open>2^62\<close>; with local
  \<open>{2, 0}\<close> the division traps and no group range is returned; with global \<open>{-4}\<close> and
  local \<open>{3}\<close> the group range is \<open>{0}\<close>, not the ceiling \<open>-1\<close>; and with global \<open>{4}\<close> and
  local \<open>{-2}\<close> it is \<open>{0}\<close>, not the ceiling \<open>-2\<close>.
\<close>

theorem get_group_range_counterexample:
  "get_group_range 1 (NDRangeImpl_ctor 1 [0x7FFFFFFFFFFFFFFF] [2] [0])
     = Inr [- 0x4000000000000000] \<and>
   sint (- 0x4000000000000000 :: intptr_t)
     \<noteq> \<lceil>real_of_int (sint (0x7FFFFFFFFFFFFFFF :: intptr_t)) / real_of_int (sint (2 :: intptr_t))\<rceil> \<and>
   get_group_range 2 (NDRangeImpl_ctor 2 [4, 4] [2, 0] [0, 0]) = Inl ArithmeticTrap \<and>
   get_group_range 1 (NDRangeImpl_ctor 1 [- 4] [3] [0]) = Inr [0] \<and>
   sint (0 :: intptr_t)
     \<noteq> \<lceil>real_of_int (sint (- 4 :: intptr_t)) / real_of_int (sint (3 :: intptr_t))\<rceil> \<and>
   get_group_range 1 (NDRangeImpl_ctor 1 [4] [- 2] [0]) = Inr [0] \<and>
   sint (0 :: intptr_t)
     \<noteq> \<lceil>real_of_int (sint (4 :: intptr_t)) / real_of_int (sint (- 2 :: intptr_t))\<rceil>"
proof -
  have "get_group_range 2 (NDRangeImpl_ctor 2 [4, 4] [2, 0] [0, 0]) = Inl ArithmeticTrap"
    by (simp add: get_group_range_def NDRangeImpl_ctor_def coordinate_simps numeral_2_eq_2)
  then show ?thesis
    by (simp add: get_group_range_def NDRangeImpl_ctor_def coordinate_simps)
qed

text \<open>
  Claim C7 at the inputs that decide it. The default constructor builds \<open>D\<close> zeros and the
  constructor from an initialiser list asserts the length; but the constructors inherited
  from the vector do not look at the rank: \<^verbatim>\<open>RangeImpl<2> r(5)\<close> is a coordinate of rank 2
  with five components, and \<^verbatim>\<open>RangeImpl<2> r(1)\<close> one with a single component, on which the
  element-wise division subscripts outside the vector.
\<close>

theorem RangeImpl_length_not_enforced:
  "length (RangeImpl_default D) = D \<and> RangeImpl_default D = replicate D 0 \<and>
   IdImpl_default D = replicate D 0 \<and>
   RangeImpl_init 2 [4, 4] = Inr [4, 4] \<and>
   RangeImpl_init 2 [4] = Inl AssertionFailed \<and>
   RangeImpl_count 2 5 = [0, 0, 0, 0, 0] \<and> length (RangeImpl_count 2 5) \<noteq> 2 \<and>
   length (IdImpl_of_range 2 (RangeImpl_count 2 5)) \<noteq> 2 \<and>
   range_div 2 (RangeImpl_count 2 1) [2, 2] = Inl OutOfRange"
  by (simp add: RangeImpl_init_def RangeImpl_count_def IdImpl_default_def IdImpl_of_range_def
      coordinate_simps numeral_2_eq_2 eval_nat_numeral)

section \<open>Properties of the recursive iterator\<close>

lemma sint_of_nat_small:
  assumes "k < 2 ^ 63"
  shows "sint (word_of_nat k :: intptr_t) = int k"
proof -
  have "(word_of_nat k :: intptr_t) = word_of_int (int k)"
    by simp
  then have "sint (word_of_nat k :: intptr_t) = signed_take_bit 63 (int k)"
    by (simp only: sint_sbintrunc') simp
  also have "\<dots> = int k"
    using assms by (intro signed_take_bit_int_eq_self) auto
  finally show ?thesis .
qed

lemma nat_sint_bound: "nat (sint (e :: intptr_t)) < 2 ^ 63"
  using sint_lt [of e] by (simp add: nat_less_iff)

lemma for_loop_eq_fold:
  assumes "k \<le> nat (sint e)"
  shows "for_loop (word_of_nat k) e body st =
           fold_err body (map word_of_nat [k..<nat (sint e)]) st"
  using assms
proof (induction "nat (sint e) - k" arbitrary: k st)
  case 0
  then have k: "k = nat (sint e)" by simp
  have "k < 2 ^ 63"
    using nat_sint_bound [of e] k by simp
  then have "sint (word_of_nat k :: intptr_t) = int k"
    by (rule sint_of_nat_small)
  then have "\<not> (word_of_nat k <s e)"
    using k by (simp add: word_sless_alt)
  then show ?case
    using k by (subst for_loop.simps) simp
next
  case (Suc m)
  then have lt: "k < nat (sint e)" by simp
  have "k < 2 ^ 63"
    using nat_sint_bound [of e] lt by simp
  then have "sint (word_of_nat k :: intptr_t) = int k"
    by (rule sint_of_nat_small)
  then have below: "word_of_nat k <s e"
    using lt by (simp add: word_sless_alt)
  have next_k: "(word_of_nat k :: intptr_t) + 1 = word_of_nat (Suc k)"
    by simp
  have IH: "for_loop (word_of_nat (Suc k)) e body st' =
              fold_err body (map word_of_nat [Suc k..<nat (sint e)]) st'" for st'
    using Suc.hyps(1) [of "Suc k" st'] Suc.hyps(2) lt by simp
  have "for_loop (word_of_nat k) e body st =
          (case body (word_of_nat k) st of Inl e \<Rightarrow> Inl e
           | Inr st' \<Rightarrow> for_loop (word_of_nat (Suc k)) e body st')"
    using below by (subst for_loop.simps) (simp only: next_k if_True)
  also have "\<dots> = fold_err body (map word_of_nat (k # [Suc k..<nat (sint e)])) st"
    by (simp only: list.map fold_err.simps IH)
  finally show ?case
    using lt by (simp add: upt_conv_Cons)
qed

lemma for_loop_from_zero:
  "for_loop 0 e body st = fold_err body (map word_of_nat [0..<nat (sint e)]) st"
  using for_loop_eq_fold [of 0 e body st] by simp

lemma inner_loop:
  assumes ok: "iter_ok level D r f" and lv: "Suc level \<le> D" and len: "length index = D"
  defines "d \<equiv> D - Suc level"
  defines "body \<equiv> (\<lambda>sycl_index (index, s).
                  if d < length index
                  then ParallelForIterate level D r f (index[d := sycl_index], s)
                  else Inl OutOfRange)"
  shows "\<exists>index'. fold_err body ks (index, s) =
            Inr (index', fold f (concat (map (\<lambda>k. map (\<lambda>suf. take d index @ k # suf)
                                                   (box (drop (Suc d) r))) ks)) s) \<and>
            length index' = D \<and> take d index' = take d index"
  using len
proof (induction ks arbitrary: index s)
  case Nil
  then show ?case by simp
next
  case (Cons k ks)
  have d: "d < D" "D - level = Suc d"
    using lv by (simp_all add: d_def)
  let ?ix = "index[d := k]"
  have lix: "length ?ix = D"
    using Cons.prems by simp
  from ok [unfolded iter_ok_def, rule_format, OF lix, of s]
  obtain index1 where
    call: "ParallelForIterate level D r f (?ix, s) = Inr (index1, fold f (visits level D r ?ix) s)"
    and l1: "length index1 = D"
    and t1: "take (D - level) index1 = take (D - level) ?ix"
    by blast
  have tk: "take (Suc d) ?ix = take d index @ [k]"
    using d(1) Cons.prems by (simp add: take_Suc_conv_app_nth)
  have vis: "visits level D r ?ix = map (\<lambda>suf. take d index @ k # suf) (box (drop (Suc d) r))"
    by (simp add: visits_def d(2) tk)
  have "take d index1 = take d (take (Suc d) index1)"
    by (simp add: min_def)
  also have "\<dots> = take d index"
    using t1 d(1) Cons.prems by (simp add: d(2) tk)
  finally have t1': "take d index1 = take d index" .
  from Cons.IH [OF l1, of "fold f (visits level D r ?ix) s"]
  obtain index' where
    remaining: "fold_err body ks (index1, fold f (visits level D r ?ix) s) =
            Inr (index', fold f (concat (map (\<lambda>k. map (\<lambda>suf. take d index1 @ k # suf)
                   (box (drop (Suc d) r))) ks)) (fold f (visits level D r ?ix) s))"
    and l': "length index' = D" and t': "take d index' = take d index1"
    by blast
  have "body k (index, s) = ParallelForIterate level D r f (?ix, s)"
    using d(1) Cons.prems by (simp add: body_def)
  then have "fold_err body (k # ks) (index, s) =
               fold_err body ks (index1, fold f (visits level D r ?ix) s)"
    by (simp add: call)
  then show ?case
    using remaining l' t' t1' by (simp add: vis)
qed

lemma iter_ok_all:
  fixes f :: "IdImpl \<Rightarrow> 's \<Rightarrow> 's"
  assumes "length r = D" "level \<le> D"
  shows "iter_ok level D r f"
  using assms(2)
proof (induction level)
  case 0
  show ?case
    by (simp add: iter_ok_def visits_def assms(1))
next
  case (Suc level)
  then have ok: "iter_ok level D r f" and lv: "Suc level \<le> D"
    by simp_all
  define d where "d = D - Suc level"
  have d: "d < D" using lv by (simp add: d_def)
  have sub: "subscript r d = Inr (r ! d)"
    using d assms(1) by (simp add: subscript_def)
  have dr: "drop d r = r ! d # drop (Suc d) r"
    using d assms(1) by (simp add: Cons_nth_drop_Suc)
  show ?case
    unfolding iter_ok_def
  proof (intro allI impI)
    fix index :: IdImpl and s :: 's
    assume len: "length index = D"
    from inner_loop [OF ok lv len, where ks = "map word_of_nat [0..<nat (sint (r ! d))]" and s = s]
    obtain index' where
      loop: "fold_err (\<lambda>sycl_index (index, s).
                  if d < length index
                  then ParallelForIterate level D r f (index[d := sycl_index], s)
                  else Inl OutOfRange) (map word_of_nat [0..<nat (sint (r ! d))]) (index, s) =
            Inr (index', fold f (concat (map (\<lambda>k. map (\<lambda>suf. take d index @ k # suf)
                     (box (drop (Suc d) r))) (map word_of_nat [0..<nat (sint (r ! d))]))) s)"
      and l': "length index' = D" and t': "take d index' = take d index"
      unfolding d_def by blast
    have vis: "visits (Suc level) D r index =
                 concat (map (\<lambda>k. map (\<lambda>suf. take d index @ k # suf)
                     (box (drop (Suc d) r))) (map word_of_nat [0..<nat (sint (r ! d))]))"
      by (simp add: visits_def d_def [symmetric] dr map_concat comp_def)
    have "ParallelForIterate (Suc level) D r f (index, s) =
            Inr (index', fold f (visits (Suc level) D r index) s)"
      using lv sub [unfolded d_def] loop [unfolded d_def]
      by (simp add: for_loop_from_zero vis [unfolded d_def])
    then show "\<exists>index'. ParallelForIterate (Suc level) D r f (index, s) =
                     Inr (index', fold f (visits (Suc level) D r index) s) \<and>
                   length index' = D \<and>
                   take (D - Suc level) index' = take (D - Suc level) index"
      using l' t' by (auto simp: d_def)
  qed
qed

lemma map_append_Nil: "map ((@) []) xs = xs"
  by (induction xs) simp_all

lemma ParallelForIterate_fold:
  assumes "length r = D" "length index = D"
  shows "\<exists>index'. ParallelForIterate D D r f (index, s) = Inr (index', fold f (box r) s)"
  using iter_ok_all [OF assms(1) order_refl, of f, unfolded iter_ok_def, rule_format,
      OF assms(2), of s]
  by (auto simp: visits_def map_append_Nil)

subsection \<open>The box\<close>

lemma length_box: "length (box r) = prod_list (map (\<lambda>e. nat (sint e)) r)"
  by (induction r) (simp_all add: length_concat comp_def sum_list_triv)

lemma length_box_nonneg:
  assumes "\<forall>e\<in>set r. 0 \<le> sint e"
  shows "int (length (box r)) = prod_list (map sint r)"
  using assms by (induction r) (simp_all add: length_concat comp_def sum_list_triv)

lemma box_empty:
  assumes "e \<in> set r" "sint e \<le> 0"
  shows "box r = []"
proof -
  have "nat (sint e) \<in> set (map (\<lambda>e. nat (sint e)) r)"
    using assms(1) by (simp add: image_iff) blast
  moreover have "nat (sint e) = 0"
    using assms(2) by simp
  ultimately have "prod_list (map (\<lambda>e. nat (sint e)) r) = 0"
    by (simp add: prod_list_zero_iff image_iff)
  then show ?thesis
    by (simp add: length_box [symmetric])
qed

lemma lex_less_irrefl: "\<not> lex_less i i"
  by (induction i) simp_all

lemma sorted_wrt_distinct:
  assumes "sorted_wrt P xs" "\<And>x. \<not> P x x"
  shows "distinct xs"
  using assms by (induction xs) auto

lemma sorted_same_head:
  "sorted_wrt lex_less xs \<Longrightarrow> sorted_wrt lex_less (map ((#) x) xs)"
  by (simp add: sorted_wrt_map)

lemma sorted_heads:
  assumes "n \<le> nat (sint (e :: intptr_t))" "sorted_wrt lex_less xs"
  shows "sorted_wrt lex_less (concat (map (\<lambda>k. map ((#) (word_of_nat k)) xs) [0..<n]))"
  using assms(1)
proof (induction n)
  case 0
  show ?case by simp
next
  case (Suc n)
  have b: "n < 2 ^ 63"
    using Suc.prems nat_sint_bound [of e] by simp
  have below: "(word_of_nat k :: intptr_t) <s word_of_nat n" if "k < n" for k
    using that b by (simp add: word_sless_alt sint_of_nat_small)
  have "sorted_wrt lex_less (concat (map (\<lambda>k. map ((#) (word_of_nat k)) xs) [0..<n]))"
    using Suc by simp
  moreover have "sorted_wrt lex_less (map ((#) (word_of_nat n)) xs)"
    by (rule sorted_same_head [OF assms(2)])
  moreover have "lex_less a b"
    if "a \<in> set (concat (map (\<lambda>k. map ((#) (word_of_nat k)) xs) [0..<n]))"
      "b \<in> set (map ((#) (word_of_nat n)) xs)" for a b
    using that below by auto
  ultimately show ?case
    by (simp add: sorted_wrt_append)
qed

lemma sorted_box: "sorted_wrt lex_less (box r)"
proof (induction r)
  case Nil
  show ?case by simp
next
  case (Cons e es)
  show ?case
    using sorted_heads [OF order_refl Cons.IH, of e] by simp
qed

lemma distinct_box: "distinct (box r)"
  by (rule sorted_wrt_distinct [OF sorted_box lex_less_irrefl])

lemma in_box_Nil: "in_box [] i \<longleftrightarrow> i = []"
  by (simp add: in_box_def)

lemma in_box_Cons:
  "in_box (e # es) i \<longleftrightarrow>
     (\<exists>x xs. i = x # xs \<and> 0 \<le> sint x \<and> sint x < sint e \<and> in_box es xs)"
  by (cases i) (auto simp: in_box_def All_less_Suc2)

lemma heads_below:
  fixes x e :: intptr_t
  shows "(0 \<le> sint x \<and> sint x < sint e) \<longleftrightarrow> (\<exists>k<nat (sint e). x = word_of_nat k)"
proof
  assume a: "0 \<le> sint x \<and> sint x < sint e"
  then have "nat (sint x) < nat (sint e)"
    by simp
  moreover have "x = word_of_nat (nat (sint x))"
    using a by simp
  ultimately show "\<exists>k<nat (sint e). x = word_of_nat k"
    by blast
next
  assume "\<exists>k<nat (sint e). x = word_of_nat k"
  then obtain k where k: "k < nat (sint e)" "x = word_of_nat k"
    by blast
  then have "k < 2 ^ 63"
    using nat_sint_bound [of e] by simp
  then have "sint x = int k"
    using k(2) by (simp add: sint_of_nat_small)
  then show "0 \<le> sint x \<and> sint x < sint e"
    using k(1) by simp
qed

lemma set_box: "i \<in> set (box r) \<longleftrightarrow> in_box r i"
proof (induction r arbitrary: i)
  case Nil
  show ?case by (simp add: in_box_Nil)
next
  case (Cons e es)
  have "i \<in> set (box (e # es)) \<longleftrightarrow>
          (\<exists>k<nat (sint e). \<exists>xs\<in>set (box es). i = word_of_nat k # xs)"
    by auto
  also have "\<dots> \<longleftrightarrow> (\<exists>x xs. i = x # xs \<and> (\<exists>k<nat (sint e). x = word_of_nat k) \<and> in_box es xs)"
    using Cons.IH by blast
  also have "\<dots> \<longleftrightarrow> in_box (e # es) i"
    using heads_below [of _ e] by (simp only: in_box_Cons) blast
  finally show ?case .
qed

text \<open>
  Claim C2. Started at level \<open>D\<close> on a range \<open>r\<close> and an index of rank \<open>D\<close>, the iterator
  returns, and its effect is that of calling the kernel functor on the indices of
  \<open>box r\<close>, one call per index, in the order of the list. The list has
  \<open>r[0] * ... * r[D-1]\<close> indices when no component of \<open>r\<close> is negative (a negative
  component counts as zero), and none when a component is zero or negative; its indices
  are pairwise distinct; they are exactly the indices of rank \<open>D\<close> with
  \<open>0 \<le> i[d] < r[d]\<close> in every dimension \<open>d\<close>; and the list ascends in the lexicographic
  order that compares dimension 0 first: dimension 0 is the outermost loop, dimension
  \<open>D - 1\<close> the innermost, and each dimension ascends.
\<close>

theorem ParallelForIterate_enumerates_box:
  assumes "length r = D" "length index = D"
  shows "(\<exists>index'. ParallelForIterate D D r f (index, s) = Inr (index', fold f (box r) s)) \<and>
         length (box r) = prod_list (map (\<lambda>e. nat (sint e)) r) \<and>
         ((\<forall>e\<in>set r. 0 \<le> sint e) \<longrightarrow> int (length (box r)) = prod_list (map sint r)) \<and>
         ((\<exists>e\<in>set r. sint e \<le> 0) \<longrightarrow> box r = []) \<and>
         distinct (box r) \<and>
         (\<forall>i. i \<in> set (box r) \<longleftrightarrow>
              length i = D \<and> (\<forall>d<D. 0 \<le> sint (i ! d) \<and> sint (i ! d) < sint (r ! d))) \<and>
         sorted_wrt lex_less (box r)"
proof -
  have "\<exists>index'. ParallelForIterate D D r f (index, s) = Inr (index', fold f (box r) s)"
    by (rule ParallelForIterate_fold [OF assms])
  moreover have "(\<forall>e\<in>set r. 0 \<le> sint e) \<longrightarrow> int (length (box r)) = prod_list (map sint r)"
    using length_box_nonneg by blast
  moreover have "(\<exists>e\<in>set r. sint e \<le> 0) \<longrightarrow> box r = []"
    using box_empty by blast
  moreover have "\<forall>i. i \<in> set (box r) \<longleftrightarrow>
              length i = D \<and> (\<forall>d<D. 0 \<le> sint (i ! d) \<and> sint (i ! d) < sint (r ! d))"
    using assms(1) by (simp add: set_box in_box_def)
  ultimately show ?thesis
    using length_box distinct_box sorted_box by blast
qed

text \<open>
  Claim C2 on the extent \<open>{2, 3}\<close>, with a functor that appends the index it is called
  with to a log: six calls, on \<open>{0,0}, {0,1}, {0,2}, {1,0}, {1,1}, {1,2}\<close> in this order;
  and on the extent \<open>{2, 0}\<close>: no call.
\<close>

theorem ParallelForIterate_enumerates_box_witness:
  "(\<exists>index'. ParallelForIterate 2 2 [2, 3] (\<lambda>i calls. calls @ [i]) ([0, 0], []) =
      Inr (index', [[0, 0], [0, 1], [0, 2], [1, 0], [1, 1], [1, 2]])) \<and>
   length (box [2, 3]) = 6 \<and>
   distinct (box [2, 3]) \<and>
   (\<exists>index'. ParallelForIterate 2 2 [2, 0] (\<lambda>i calls. calls @ [i]) ([0, 0], []) =
      Inr (index', []))"
proof -
  have b: "box [2, 3] = [[0, 0], [0, 1], [0, 2], [1, 0], [1, 1], [1, 2]]"
    by (simp add: upt_rec numeral_2_eq_2 numeral_3_eq_3)
  have b0: "box [2, 0] = []"
    by (simp add: upt_rec numeral_2_eq_2)
  have len: "length [2, 3 :: intptr_t] = 2" "length [2, 0 :: intptr_t] = 2"
    "length [0, 0 :: intptr_t] = 2"
    by simp_all
  note first = ParallelForIterate_enumerates_box
    [OF len(1) len(3), of "\<lambda>i calls. calls @ [i]" "[]"]
  note second = ParallelForIterate_enumerates_box
    [OF len(2) len(3), of "\<lambda>i calls. calls @ [i]" "[]"]
  have c1: "\<exists>index'. ParallelForIterate 2 2 [2, 3] (\<lambda>i calls. calls @ [i]) ([0, 0], []) =
      Inr (index', [[0, 0], [0, 1], [0, 2], [1, 0], [1, 1], [1, 2]])"
    using first [THEN conjunct1] unfolding b by simp
  have c2: "length (box [2, 3]) = 6"
    unfolding b by simp
  have c3: "distinct (box [2, 3])"
    using first [THEN conjunct2, THEN conjunct2, THEN conjunct2, THEN conjunct2, THEN conjunct1] .
  have c4: "\<exists>index'. ParallelForIterate 2 2 [2, 0] (\<lambda>i calls. calls @ [i]) ([0, 0], []) =
      Inr (index', [])"
    using second [THEN conjunct1] unfolding b0 by simp
  from c1 c2 c3 c4 show ?thesis
    by blast
qed

section \<open>Properties of the interface classes\<close>

lemmas nd_item_simps =
  for_each_item_in_group_def for_each_item_global_index_def derived_global_id_def
  group_ctor_def nd_item_ctor_def NDRangeImpl_ctor_def get_local_range_def get_offset_def
  nd_item_get_group_id_def nd_item_get_global_id_def nd_item_get_local_id_def
  nd_item_get_local_range_def nd_item_get_offset_def relation_holds_def

lemma range_mul_loop_ok:
  assumes "length a = D" "length b = D" "length result = D"
  shows "range_mul_loop D i a b result =
           Inr (map (\<lambda>j. if j < i then result ! j else a ! j * b ! j) [0..<D])"
  using assms
proof (induction D i a b result rule: range_mul_loop.induct)
  case (1 D i a b result)
  show ?case
  proof (cases "i < D")
    case False
    have "map (\<lambda>j. if j < i then result ! j else a ! j * b ! j) [0..<D]
            = map ((!) result) [0..<D]"
      using False by (intro map_cong) auto
    also have "\<dots> = result"
      using "1.prems"(3) map_nth [of result] by simp
    finally show ?thesis
      using False by (subst range_mul_loop.simps) simp
  next
    case True
    have sub: "subscript a i = Inr (a ! i)" "subscript b i = Inr (b ! i)"
      using True "1.prems" by (simp_all add: subscript_def)
    have unfolded: "range_mul_loop D i a b result =
                      range_mul_loop D (Suc i) a b (result[i := a ! i * b ! i])"
      using True sub by (subst range_mul_loop.simps) simp
    have IH: "range_mul_loop D (Suc i) a b (result[i := a ! i * b ! i]) =
          Inr (map (\<lambda>j. if j < Suc i then result[i := a ! i * b ! i] ! j
                         else a ! j * b ! j) [0..<D])"
      using "1.IH" [OF True sub] "1.prems" by simp
    have "map (\<lambda>j. if j < Suc i then result[i := a ! i * b ! i] ! j else a ! j * b ! j) [0..<D]
        = map (\<lambda>j. if j < i then result ! j else a ! j * b ! j) [0..<D]"
      using True "1.prems"(3) by (intro map_cong) (auto simp: less_Suc_eq)
    with unfolded IH show ?thesis by simp
  qed
qed

lemma range_add_loop_ok:
  assumes "length a = D" "length b = D" "length result = D"
  shows "range_add_loop D i a b result =
           Inr (map (\<lambda>j. if j < i then result ! j else a ! j + b ! j) [0..<D])"
  using assms
proof (induction D i a b result rule: range_add_loop.induct)
  case (1 D i a b result)
  show ?case
  proof (cases "i < D")
    case False
    have "map (\<lambda>j. if j < i then result ! j else a ! j + b ! j) [0..<D]
            = map ((!) result) [0..<D]"
      using False by (intro map_cong) auto
    also have "\<dots> = result"
      using "1.prems"(3) map_nth [of result] by simp
    finally show ?thesis
      using False by (subst range_add_loop.simps) simp
  next
    case True
    have sub: "subscript a i = Inr (a ! i)" "subscript b i = Inr (b ! i)"
      using True "1.prems" by (simp_all add: subscript_def)
    have unfolded: "range_add_loop D i a b result =
                      range_add_loop D (Suc i) a b (result[i := a ! i + b ! i])"
      using True sub by (subst range_add_loop.simps) simp
    have IH: "range_add_loop D (Suc i) a b (result[i := a ! i + b ! i]) =
          Inr (map (\<lambda>j. if j < Suc i then result[i := a ! i + b ! i] ! j
                         else a ! j + b ! j) [0..<D])"
      using "1.IH" [OF True sub] "1.prems" by simp
    have "map (\<lambda>j. if j < Suc i then result[i := a ! i + b ! i] ! j else a ! j + b ! j) [0..<D]
        = map (\<lambda>j. if j < i then result ! j else a ! j + b ! j) [0..<D]"
      using True "1.prems"(3) by (intro map_cong) (auto simp: less_Suc_eq)
    with unfolded IH show ?thesis by simp
  qed
qed

lemma range_mul_ok:
  assumes "length a = D" "length b = D"
  shows "range_mul D a b = Inr (map (\<lambda>j. a ! j * b ! j) [0..<D])"
  using range_mul_loop_ok [of a D b "RangeImpl_default D" 0] assms
  by (simp add: range_mul_def RangeImpl_default_def)

lemma range_add_ok:
  assumes "length a = D" "length b = D"
  shows "range_add D a b = Inr (map (\<lambda>j. a ! j + b ! j) [0..<D])"
  using range_add_loop_ok [of a D b "RangeImpl_default D" 0] assms
  by (simp add: range_add_def RangeImpl_default_def)

lemma quotient_recovers_group:
  fixes g L l :: intptr_t
  assumes "0 \<le> sint g" "0 < sint L" "0 \<le> sint l" "sint l < sint L"
    and "sint g * sint L + sint l < 2 ^ 63"
  shows "word_of_int (sint (g * L + l) sdiv sint L) = g"
proof -
  let ?n = "sint g * sint L + sint l"
  have n0: "0 \<le> ?n"
    using assms by simp
  have "g * L + l = word_of_int ?n"
    by simp
  then have "sint (g * L + l) = signed_take_bit 63 ?n"
    by (simp only: sint_sbintrunc') simp
  also have "\<dots> = ?n"
    using n0 assms(5) by (intro signed_take_bit_int_eq_self) auto
  finally have s: "sint (g * L + l) = ?n" .
  have "?n sdiv sint L = ?n div sint L"
    using n0 assms(2) by (rule sdiv_nonneg)
  also have "\<dots> = sint g + sint l div sint L"
    using assms(2) by simp
  also have "\<dots> = sint g"
    using assms(3,4) by (simp add: div_pos_pos_trivial)
  finally show ?thesis
    by (simp add: s)
qed

text \<open>
  Claim C3, as amended. For a group and a local index of rank \<open>dims\<close>, the launcher
  returns a work-item whose global index is the id of that group times the local range
  plus the local index plus the offset; and \<open>get_group_id()\<close> of the work-item is the
  quotient \<open>/\<close> of its global index by its local range, whatever \<open>/\<close> is, computed without
  the offset. Where \<open>/\<close> is the truncating element-wise quotient, the offset is zero, the
  group id is non-negative, the local index lies in \<open>[0, local)\<close> and
  \<open>group[i] * local[i] + index[i]\<close> does not exceed the largest signed value,
  \<open>get_group_id()\<close> is the id of the group and the relationship of the claim holds.
\<close>

theorem nd_item_relation_of_group:
  assumes "length (group_Id g) = dims" "length (LocalRange (group_NDR g)) = dims"
    and "length local_index = dims" "length (Offset (group_NDR g)) = dims"
  shows "\<exists>it. for_each_item_in_group dims g local_index = Inr it \<and>
           derived_global_id dims (group_Id g) it = Inr (nd_item_get_global_id it) \<and>
           nd_item_get_group_id dv it
             = dv (nd_item_get_global_id it) (LocalRange (group_NDR g)) \<and>
           ((\<forall>i<dims. Offset (group_NDR g) ! i = 0 \<and> 0 \<le> sint (group_Id g ! i) \<and>
                0 < sint (LocalRange (group_NDR g) ! i) \<and>
                0 \<le> sint (local_index ! i) \<and>
                sint (local_index ! i) < sint (LocalRange (group_NDR g) ! i) \<and>
                sint (group_Id g ! i) * sint (LocalRange (group_NDR g) ! i)
                  + sint (local_index ! i) < 2 ^ 63) \<longrightarrow>
              nd_item_get_group_id (truncating_quotient dims) it = Inr (group_Id g) \<and>
              relation_holds (truncating_quotient dims) dims it)"
proof -
  let ?g = "group_Id g" and ?L = "LocalRange (group_NDR g)" and ?o = "Offset (group_NDR g)"
  let ?gl = "map (\<lambda>j. ?g ! j * ?L ! j) [0..<dims]"
  let ?gll = "map (\<lambda>j. ?gl ! j + local_index ! j) [0..<dims]"
  let ?glob = "map (\<lambda>j. ?gll ! j + ?o ! j) [0..<dims]"
  let ?it = "nd_item_ctor ?glob local_index (group_NDR g)"
  have m: "range_mul dims ?g ?L = Inr ?gl"
    by (rule range_mul_ok [OF assms(1,2)])
  have a1: "range_add dims ?gl local_index = Inr ?gll"
    using range_add_ok [of ?gl dims local_index] assms(3) by simp
  have a2: "range_add dims ?gll ?o = Inr ?glob"
    using range_add_ok [of ?gll dims ?o] assms(4) by simp
  have glob: "for_each_item_global_index dims g local_index = Inr ?glob"
    by (simp add: for_each_item_global_index_def get_local_range_def get_offset_def m a1 a2)
  have produced: "for_each_item_in_group dims g local_index = Inr ?it"
    by (simp add: for_each_item_in_group_def glob)
  have queries: "nd_item_get_global_id ?it = ?glob" "nd_item_get_local_range ?it = ?L"
    "nd_item_get_local_id ?it = local_index" "nd_item_get_offset ?it = ?o"
    by (simp_all add: nd_item_get_global_id_def nd_item_get_local_range_def
        nd_item_get_local_id_def nd_item_get_offset_def nd_item_ctor_def
        get_local_range_def get_offset_def)
  have derived: "derived_global_id dims ?g ?it = Inr (nd_item_get_global_id ?it)"
    by (simp add: derived_global_id_def queries m a1 a2)
  have any: "nd_item_get_group_id dv ?it = dv (nd_item_get_global_id ?it) ?L"
    by (simp add: nd_item_get_group_id_def queries)
  have trunc: "nd_item_get_group_id (truncating_quotient dims) ?it = Inr ?g \<and>
               relation_holds (truncating_quotient dims) dims ?it"
    if h: "\<forall>i<dims. ?o ! i = 0 \<and> 0 \<le> sint (?g ! i) \<and> 0 < sint (?L ! i) \<and>
                0 \<le> sint (local_index ! i) \<and> sint (local_index ! i) < sint (?L ! i) \<and>
                sint (?g ! i) * sint (?L ! i) + sint (local_index ! i) < 2 ^ 63"
  proof -
    have comp: "?glob ! i = ?g ! i * ?L ! i + local_index ! i" if "i < dims" for i
      using that h by simp
    have safe: "list_all (\<lambda>i. ?L ! i \<noteq> 0 \<and>
                  \<not> (sint (?glob ! i) = - (2 ^ 63) \<and> sint (?L ! i) = - 1)) [0..<dims]"
      using h by (auto simp: list_all_iff)
    have "map (\<lambda>i. word_of_int (sint (?glob ! i) sdiv sint (?L ! i))) [0..<dims]
            = map ((!) ?g) [0..<dims]"
    proof (intro map_cong refl)
      fix i assume "i \<in> set [0..<dims]"
      then have i: "i < dims" by simp
      from h i have b: "0 \<le> sint (?g ! i)" "0 < sint (?L ! i)" "0 \<le> sint (local_index ! i)"
        "sint (local_index ! i) < sint (?L ! i)"
        "sint (?g ! i) * sint (?L ! i) + sint (local_index ! i) < 2 ^ 63"
        by simp_all
      show "word_of_int (sint (?glob ! i) sdiv sint (?L ! i)) = ?g ! i"
        using quotient_recovers_group [OF b] by (simp only: comp [OF i])
    qed
    also have "\<dots> = ?g"
      using assms(1) map_nth [of ?g] by simp
    finally have q: "truncating_quotient dims ?glob ?L = Inr ?g"
      using safe assms(2) by (simp add: truncating_quotient_def)
    then have gid: "nd_item_get_group_id (truncating_quotient dims) ?it = Inr ?g"
      by (simp add: nd_item_get_group_id_def queries)
    with derived show ?thesis
      by (simp add: relation_holds_def)
  qed
  from produced derived any trunc show ?thesis
    by blast
qed

text \<open>
  The amended claim C3 in the space with global size \<open>{4}\<close>, local size \<open>{2}\<close> and offset
  \<open>{0}\<close>, on the work-item of group \<open>{1}\<close> with local index \<open>{1}\<close>: its global index is \<open>{3}\<close>,
  the truncating quotient gives the group id \<open>{1}\<close>, and the relationship holds.
\<close>

theorem nd_item_relation_of_group_witness:
  "\<exists>it. for_each_item_in_group 1 (group_ctor (NDRangeImpl_ctor 1 [4] [2] [0]) [1]) [1] = Inr it \<and>
      nd_item_get_global_id it = [3] \<and>
      nd_item_get_group_id (truncating_quotient 1) it = Inr [1] \<and>
      relation_holds (truncating_quotient 1) 1 it"
proof -
  let ?g = "group_ctor (NDRangeImpl_ctor 1 [4] [2] [0]) [1]"
  have len: "length (group_Id ?g) = 1" "length (LocalRange (group_NDR ?g)) = 1"
    "length [1 :: intptr_t] = 1" "length (Offset (group_NDR ?g)) = 1"
    by (simp_all add: group_ctor_def NDRangeImpl_ctor_def RangeImpl_copy_def)
  have h: "\<forall>i<1. Offset (group_NDR ?g) ! i = 0 \<and> 0 \<le> sint (group_Id ?g ! i) \<and>
                0 < sint (LocalRange (group_NDR ?g) ! i) \<and>
                0 \<le> sint ([1 :: intptr_t] ! i) \<and>
                sint ([1 :: intptr_t] ! i) < sint (LocalRange (group_NDR ?g) ! i) \<and>
                sint (group_Id ?g ! i) * sint (LocalRange (group_NDR ?g) ! i)
                  + sint ([1 :: intptr_t] ! i) < 2 ^ 63"
    by (simp add: group_ctor_def NDRangeImpl_ctor_def RangeImpl_copy_def)
  from nd_item_relation_of_group [OF len, of "truncating_quotient 1"]
  obtain it where p: "for_each_item_in_group 1 ?g [1] = Inr it"
    and t: "(\<forall>i<1. Offset (group_NDR ?g) ! i = 0 \<and> 0 \<le> sint (group_Id ?g ! i) \<and>
                0 < sint (LocalRange (group_NDR ?g) ! i) \<and>
                0 \<le> sint ([1 :: intptr_t] ! i) \<and>
                sint ([1 :: intptr_t] ! i) < sint (LocalRange (group_NDR ?g) ! i) \<and>
                sint (group_Id ?g ! i) * sint (LocalRange (group_NDR ?g) ! i)
                  + sint ([1 :: intptr_t] ! i) < 2 ^ 63) \<longrightarrow>
              nd_item_get_group_id (truncating_quotient 1) it = Inr (group_Id ?g) \<and>
              relation_holds (truncating_quotient 1) 1 it"
    by blast
  from t h have r: "nd_item_get_group_id (truncating_quotient 1) it = Inr (group_Id ?g)"
    "relation_holds (truncating_quotient 1) 1 it"
    by blast+
  have v: "for_each_item_in_group 1 ?g [1]
             = Inr (nd_item_ctor [3] [1] (NDRangeImpl_ctor 1 [4] [2] [0]))"
    by (simp add: nd_item_simps coordinate_simps)
  from p v have "nd_item_get_global_id it = [3]"
    by (simp add: nd_item_get_global_id_def nd_item_ctor_def)
  with p r show ?thesis
    by (auto simp: group_ctor_def)
qed

text \<open>
  Claim C3 as stated fails, whatever the operator \<open>/\<close> of \<open>get_group_id()\<close> is. The
  work-item of group \<open>{0}\<close>, local index \<open>{0}\<close> in the space of global size \<open>{4}\<close>, local size
  \<open>{2}\<close> and offset \<open>{2}\<close>, and the work-item of group \<open>{1}\<close>, local index \<open>{0}\<close> in the same
  space with offset \<open>{0}\<close> have the same global index \<open>{2}\<close> and the same local range, so
  \<open>get_group_id()\<close> returns the same on both; the relationship cannot hold on both. With
  the upper-rounding \<open>/\<close> of \<open>RangeImpl\<close> it fails under a zero offset too, on the work-item of
  group \<open>{0}\<close> with local index \<open>{1}\<close>; and with the truncating quotient it fails where the
  global index overflows, for the group id \<open>{2^62}\<close> and the local size \<open>{3}\<close>.
\<close>

theorem nd_item_relation_counterexample:
  "for_each_item_in_group 1 (group_ctor (NDRangeImpl_ctor 1 [4] [2] [2]) [0]) [0]
     = Inr (nd_item_ctor [2] [0] (NDRangeImpl_ctor 1 [4] [2] [2])) \<and>
   for_each_item_in_group 1 (group_ctor (NDRangeImpl_ctor 1 [4] [2] [0]) [1]) [0]
     = Inr (nd_item_ctor [2] [0] (NDRangeImpl_ctor 1 [4] [2] [0])) \<and>
   (\<forall>dv. \<not> (relation_holds dv 1 (nd_item_ctor [2] [0] (NDRangeImpl_ctor 1 [4] [2] [2])) \<and>
            relation_holds dv 1 (nd_item_ctor [2] [0] (NDRangeImpl_ctor 1 [4] [2] [0])))) \<and>
   for_each_item_in_group 1 (group_ctor (NDRangeImpl_ctor 1 [4] [2] [0]) [0]) [1]
     = Inr (nd_item_ctor [1] [1] (NDRangeImpl_ctor 1 [4] [2] [0])) \<and>
   \<not> relation_holds (range_div 1) 1 (nd_item_ctor [1] [1] (NDRangeImpl_ctor 1 [4] [2] [0])) \<and>
   for_each_item_in_group 1
       (group_ctor (NDRangeImpl_ctor 1 [0x7FFFFFFFFFFFFFFF] [3] [0]) [0x4000000000000000]) [0]
     = Inr (nd_item_ctor [- 0x4000000000000000] [0]
              (NDRangeImpl_ctor 1 [0x7FFFFFFFFFFFFFFF] [3] [0])) \<and>
   \<not> relation_holds (truncating_quotient 1) 1
       (nd_item_ctor [- 0x4000000000000000] [0]
          (NDRangeImpl_ctor 1 [0x7FFFFFFFFFFFFFFF] [3] [0]))"
proof -
  have two: "\<not> (relation_holds dv 1 (nd_item_ctor [2] [0] (NDRangeImpl_ctor 1 [4] [2] [2])) \<and>
            relation_holds dv 1 (nd_item_ctor [2] [0] (NDRangeImpl_ctor 1 [4] [2] [0])))" for dv
  proof (cases "dv [2] [2]")
    case (Inl e)
    then show ?thesis
      by (simp add: nd_item_simps RangeImpl_copy_def)
  next
    case (Inr q)
    have "\<not> (derived_global_id 1 q (nd_item_ctor [2] [0] (NDRangeImpl_ctor 1 [4] [2] [2]))
               = Inr [2] \<and>
             derived_global_id 1 q (nd_item_ctor [2] [0] (NDRangeImpl_ctor 1 [4] [2] [0]))
               = Inr [2])"
      by (cases q) (simp_all add: nd_item_simps coordinate_simps)
    then show ?thesis
      using Inr
      by (simp add: relation_holds_def nd_item_get_group_id_def nd_item_get_global_id_def
          nd_item_get_local_range_def nd_item_ctor_def NDRangeImpl_ctor_def
          get_local_range_def RangeImpl_copy_def)
  qed
  have produced: "for_each_item_in_group 1 (group_ctor (NDRangeImpl_ctor 1 [4] [2] [2]) [0]) [0]
     = Inr (nd_item_ctor [2] [0] (NDRangeImpl_ctor 1 [4] [2] [2]))"
    "for_each_item_in_group 1 (group_ctor (NDRangeImpl_ctor 1 [4] [2] [0]) [1]) [0]
     = Inr (nd_item_ctor [2] [0] (NDRangeImpl_ctor 1 [4] [2] [0]))"
    "for_each_item_in_group 1 (group_ctor (NDRangeImpl_ctor 1 [4] [2] [0]) [0]) [1]
     = Inr (nd_item_ctor [1] [1] (NDRangeImpl_ctor 1 [4] [2] [0]))"
    "for_each_item_in_group 1
       (group_ctor (NDRangeImpl_ctor 1 [0x7FFFFFFFFFFFFFFF] [3] [0]) [0x4000000000000000]) [0]
     = Inr (nd_item_ctor [- 0x4000000000000000] [0]
              (NDRangeImpl_ctor 1 [0x7FFFFFFFFFFFFFFF] [3] [0]))"
    by (simp_all add: nd_item_simps coordinate_simps)
  have rounding: "\<not> relation_holds (range_div 1) 1
      (nd_item_ctor [1] [1] (NDRangeImpl_ctor 1 [4] [2] [0]))"
    by (simp add: nd_item_simps coordinate_simps)
  have overflow: "\<not> relation_holds (truncating_quotient 1) 1
       (nd_item_ctor [- 0x4000000000000000] [0]
          (NDRangeImpl_ctor 1 [0x7FFFFFFFFFFFFFFF] [3] [0]))"
    by (simp add: nd_item_simps coordinate_simps truncating_quotient_def)
  from two produced rounding overflow show ?thesis
    by blast
qed

text \<open>
  Claim C10. For an item and a dimension inside its global index, \<open>get(dimension)\<close>
  returns the component converted to \<^verbatim>\<open>std::size_t\<close>: the unsigned value is the signed
  component reduced modulo \<open>2 ^ 64\<close>, which for a negative component is the component plus
  \<open>2 ^ 64\<close> and not the negative value; \<open>get_global_id()\<close> returns the global index itself,
  the component unchanged.
\<close>

theorem item_get_converts_to_unsigned:
  assumes "0 \<le> dimension" "nat dimension < length (item_GlobalIndex it)"
  shows "\<exists>u. item_get it dimension = Inr u \<and>
           uint u = sint (item_GlobalIndex it ! nat dimension) mod 2 ^ 64 \<and>
           (sint (item_GlobalIndex it ! nat dimension) < 0 \<longrightarrow>
              uint u = sint (item_GlobalIndex it ! nat dimension) + 2 ^ 64 \<and>
              uint u \<noteq> sint (item_GlobalIndex it ! nat dimension)) \<and>
           (0 \<le> sint (item_GlobalIndex it ! nat dimension) \<longrightarrow>
              uint u = sint (item_GlobalIndex it ! nat dimension)) \<and>
           item_get_global_id it = item_GlobalIndex it \<and>
           sint (item_get_global_id it ! nat dimension)
             = sint (item_GlobalIndex it ! nat dimension)"
proof -
  let ?x = "item_GlobalIndex it ! nat dimension"
  let ?u = "size_t_of_intptr ?x"
  have get: "item_get it dimension = Inr ?u"
    using assms by (simp add: item_get_def subscript_int_def subscript_def)
  have conv: "uint ?u = sint ?x mod 2 ^ 64"
    by (simp only: size_t_of_intptr_def uint_word_of_int) simp
  have lo: "- (2 ^ 63) \<le> sint ?x"
    using sint_ge [of ?x] by simp
  have hi: "sint ?x < 2 ^ 63"
    using sint_lt [of ?x] by simp
  have neg: "uint ?u = sint ?x + 2 ^ 64 \<and> uint ?u \<noteq> sint ?x" if "sint ?x < 0"
  proof -
    have "(sint ?x + 2 ^ 64) mod 2 ^ 64 = sint ?x + 2 ^ 64"
      using lo that by (intro mod_pos_pos_trivial) auto
    then have "sint ?x mod 2 ^ 64 = sint ?x + 2 ^ 64"
      by simp
    then show ?thesis
      using conv by simp
  qed
  have pos: "uint ?u = sint ?x" if "0 \<le> sint ?x"
    using conv hi that by (simp add: mod_pos_pos_trivial)
  show ?thesis
    using get conv neg pos by (auto simp: item_get_global_id_def)
qed

text \<open>
  Claim C10 on the item with global index \<open>{-1}\<close>: \<open>get(0)\<close> is \<open>2 ^ 64 - 1\<close>, while the
  component of \<open>get_global_id()\<close> is \<open>-1\<close>.
\<close>

theorem item_get_converts_to_unsigned_witness:
  "\<exists>u. item_get (item_ctor [4] [- 1] [0]) 0 = Inr u \<and> uint u = 2 ^ 64 - 1 \<and>
       sint (item_get_global_id (item_ctor [4] [- 1] [0]) ! 0) = - 1"
proof -
  have d: "(0 :: int) \<le> 0" "nat 0 < length (item_GlobalIndex (item_ctor [4] [- 1] [0]))"
    by (simp_all add: item_ctor_def)
  from item_get_converts_to_unsigned [OF d]
  obtain u where u: "item_get (item_ctor [4] [- 1] [0]) 0 = Inr u"
    and m: "uint u = sint (item_GlobalIndex (item_ctor [4] [- 1] [0]) ! nat 0) mod 2 ^ 64"
    and g: "sint (item_get_global_id (item_ctor [4] [- 1] [0]) ! nat 0)
             = sint (item_GlobalIndex (item_ctor [4] [- 1] [0]) ! nat 0)"
    by blast
  have "uint u = 2 ^ 64 - 1"
    using m by (simp add: item_ctor_def)
  moreover have "sint (item_get_global_id (item_ctor [4] [- 1] [0]) ! 0) = - 1"
    using g by (simp add: item_ctor_def)
  ultimately show ?thesis
    using u by blast
qed

section \<open>Properties of the buffers\<close>

lemma element_offset_bound:
  "element_offset sh Index = Inr k \<Longrightarrow> k < prod_list sh"
proof (induction sh Index arbitrary: k rule: element_offset.induct)
  case (1 indices)
  then show ?case by simp
next
  case (2 n ns)
  then show ?case by simp
next
  case (3 n ns i indices)
  from "3.prems" obtain k' where
    i: "0 \<le> sint i" "nat (sint i) < n"
    and k': "element_offset ns indices = Inr k'"
    and k: "k = nat (sint i) * prod_list ns + k'"
    by (auto split: if_splits sum.splits)
  have "k' < prod_list ns"
    using "3.IH" i k' by simp
  then have "k < (nat (sint i) + 1) * prod_list ns"
    by (simp add: k)
  also have "\<dots> \<le> n * prod_list ns"
    using i(2) by (intro mult_le_mono1) simp
  finally show ?case by simp
qed

lemma BufferImpl_copy_result:
  assumes "BufferImpl_copy b s = Inr (c, s1)"
  shows "\<exists>elems. load_range (base (Access b)) (num_elements (Access b)) s = Inr elems \<and>
           s1 = s @ [elems] \<and>
           c = \<lparr>Allocation = Some \<lparr>base = \<lparr>block = length s, offs = 0\<rparr>,
                                    shape = shape (Access b)\<rparr>,
                Access = \<lparr>base = \<lparr>block = length s, offs = 0\<rparr>, shape = shape (Access b)\<rparr>,
                ReadOnly = Some False\<rparr>"
  using assms by (auto simp: BufferImpl_copy_def alloc_def split: sum.splits)

lemma BufferImpl_copy_returns:
  assumes "load_range (base (Access b)) (num_elements (Access b)) s = Inr elems"
  shows "BufferImpl_copy b s =
           Inr (\<lparr>Allocation = Some \<lparr>base = \<lparr>block = length s, offs = 0\<rparr>,
                                    shape = shape (Access b)\<rparr>,
                 Access = \<lparr>base = \<lparr>block = length s, offs = 0\<rparr>, shape = shape (Access b)\<rparr>,
                 ReadOnly = Some False\<rparr>, s @ [elems])"
  using assms by (simp add: BufferImpl_copy_def alloc_def)

lemma load_range_nth:
  assumes "load_range p n s = Inr elems" "k < n"
  shows "length elems = n" "load p k s = Inr (elems ! k)"
  using assms by (auto simp: load_range_def load_def split: if_splits)

lemma load_range_length:
  assumes "load_range p n s = Inr elems"
  shows "length elems = n"
  using assms by (auto simp: load_range_def split: if_splits)

lemma load_range_block:
  assumes "load_range p n s = Inr elems"
  shows "block p < length s"
  using assms by (auto simp: load_range_def split: if_splits)

lemma load_fresh:
  "k < length elems \<Longrightarrow> load \<lparr>block = length s, offs = 0\<rparr> k (s @ [elems]) = Inr (elems ! k)"
  by (simp add: load_def)

lemma load_old:
  "block p < length s \<Longrightarrow> load p k (s @ [elems]) = load p k s"
  by (simp add: load_def nth_append)

lemma store_fresh:
  "k < length elems \<Longrightarrow>
     store_elem \<lparr>block = length s, offs = 0\<rparr> k v (s @ [elems]) = Inr (s @ [elems[k := v]])"
  by (simp add: store_elem_def)

lemma store_old:
  assumes "block p < length s" "store_elem p k v (s @ [elems]) = Inr s2"
  shows "\<exists>s'. store_elem p k v s = Inr s' \<and> s2 = s' @ [elems] \<and> length s' = length s"
  using assms by (auto simp: store_elem_def nth_append list_update_append split: if_splits)

lemmas buffer_simps =
  BufferImpl_copy_def BufferImpl_iterators_def BufferImpl_host_def BufferImpl_const_host_def
  alloc_def load_def load_range_def store_elem_def num_elements_def
  get_access_def AccessorImpl_ctor_def accessor_read_def accessor_write_def

text \<open>
  Claim C1, what the code does instead. When the copy constructor returns the copy \<open>c\<close> of
  a buffer \<open>b\<close>, a write through an accessor of \<open>b\<close> is not seen through an accessor of
  \<open>c\<close>, which still reads the element \<open>b\<close> held when it was copied; and a write through an
  accessor of \<open>c\<close> is not seen through an accessor of \<open>b\<close>. The copy owns a snapshot of the
  elements, it does not share the storage.
\<close>

theorem BufferImpl_copy_is_snapshot:
  assumes copy: "BufferImpl_copy b s = Inr (c, s1)"
  shows "(accessor_write (get_access m t b) i v s1 = Inr s2 \<longrightarrow>
            accessor_read (get_access m' t' c) i s2 = accessor_read (get_access m' t' b) i s) \<and>
         (accessor_write (get_access m t c) i v s1 = Inr s3 \<longrightarrow>
            accessor_read (get_access m' t' b) i s3 = accessor_read (get_access m' t' b) i s)"
proof -
  from BufferImpl_copy_result [OF copy] obtain elems where
    lr: "load_range (base (Access b)) (num_elements (Access b)) s = Inr elems"
    and s1: "s1 = s @ [elems]"
    and c: "c = \<lparr>Allocation = Some \<lparr>base = \<lparr>block = length s, offs = 0\<rparr>,
                                     shape = shape (Access b)\<rparr>,
                Access = \<lparr>base = \<lparr>block = length s, offs = 0\<rparr>, shape = shape (Access b)\<rparr>,
                ReadOnly = Some False\<rparr>"
    by blast
  have blk: "block (base (Access b)) < length s"
    by (rule load_range_block [OF lr])
  have first: "accessor_read (get_access m' t' c) i s2 = accessor_read (get_access m' t' b) i s"
    if w: "accessor_write (get_access m t b) i v s1 = Inr s2"
  proof -
    from w obtain k where k: "element_offset (shape (Access b)) i = Inr k"
      and st: "store_elem (base (Access b)) k v (s @ [elems]) = Inr s2"
      by (auto simp: accessor_write_def get_access_def AccessorImpl_ctor_def s1
          split: sum.splits)
    have kn: "k < num_elements (Access b)"
      using element_offset_bound [OF k] by (simp add: num_elements_def)
    from store_old [OF blk st] obtain s' where s2: "s2 = s' @ [elems]"
      and len: "length s' = length s"
      by blast
    have "accessor_read (get_access m' t' c) i s2 =
            load \<lparr>block = length s', offs = 0\<rparr> k (s' @ [elems])"
      by (simp add: accessor_read_def get_access_def AccessorImpl_ctor_def c k s2 len)
    also have "\<dots> = Inr (elems ! k)"
      using load_range_nth(1) [OF lr kn] kn by (intro load_fresh) simp
    also have "\<dots> = load (base (Access b)) k s"
      using load_range_nth(2) [OF lr kn] by simp
    also have "\<dots> = accessor_read (get_access m' t' b) i s"
      by (simp add: accessor_read_def get_access_def AccessorImpl_ctor_def k)
    finally show ?thesis .
  qed
  have second: "accessor_read (get_access m' t' b) i s3 = accessor_read (get_access m' t' b) i s"
    if w: "accessor_write (get_access m t c) i v s1 = Inr s3"
  proof -
    from w obtain k where k: "element_offset (shape (Access b)) i = Inr k"
      and st: "store_elem \<lparr>block = length s, offs = 0\<rparr> k v (s @ [elems]) = Inr s3"
      by (auto simp: accessor_write_def get_access_def AccessorImpl_ctor_def s1 c
          split: sum.splits)
    have kn: "k < num_elements (Access b)"
      using element_offset_bound [OF k] by (simp add: num_elements_def)
    have "s3 = s @ [elems[k := v]]"
      using st store_fresh [of k elems s v] load_range_nth(1) [OF lr kn] kn by simp
    then have "accessor_read (get_access m' t' b) i s3 =
                 load (base (Access b)) k (s @ [elems[k := v]])"
      by (simp add: accessor_read_def get_access_def AccessorImpl_ctor_def k)
    also have "\<dots> = load (base (Access b)) k s"
      by (rule load_old [OF blk])
    also have "\<dots> = accessor_read (get_access m' t' b) i s"
      by (simp add: accessor_read_def get_access_def AccessorImpl_ctor_def k)
    finally show ?thesis .
  qed
  from first second show ?thesis by blast
qed

text \<open>
  Claim C1 on a buffer over the host array \<open>{10, 20, 30}\<close>: after the copy, 99 is written
  to element 1 through an accessor of the original; an accessor of the copy reads 20 at
  element 1, not 99.
\<close>

theorem BufferImpl_copy_is_snapshot_witness:
  "\<exists>c s1 s2.
     BufferImpl_copy (BufferImpl_host \<lparr>block = 0, offs = 0\<rparr> [3]) [[10, 20, 30 :: int]]
       = Inr (c, s1) \<and>
     accessor_write (get_access access_read_write access_global_buffer
         (BufferImpl_host \<lparr>block = 0, offs = 0\<rparr> [3])) [1] 99 s1 = Inr s2 \<and>
     accessor_read (get_access access_read access_global_buffer
         (BufferImpl_host \<lparr>block = 0, offs = 0\<rparr> [3])) [1] s2 = Inr 99 \<and>
     accessor_read (get_access access_read access_global_buffer c) [1] s2 = Inr 20"
proof -
  let ?b = "BufferImpl_host \<lparr>block = 0, offs = 0\<rparr> [3]"
  let ?c = "\<lparr>Allocation = Some \<lparr>base = \<lparr>block = 1, offs = 0\<rparr>, shape = [3]\<rparr>,
             Access = \<lparr>base = \<lparr>block = 1, offs = 0\<rparr>, shape = [3]\<rparr>,
             ReadOnly = Some False\<rparr>"
  let ?s = "[[10, 20, 30 :: int]]"
  let ?s1 = "[[10, 20, 30 :: int], [10, 20, 30]]"
  let ?s2 = "[[10, 99, 30 :: int], [10, 20, 30]]"
  have copy: "BufferImpl_copy ?b ?s = Inr (?c, ?s1)"
    by (simp add: buffer_simps)
  have w: "accessor_write (get_access access_read_write access_global_buffer ?b) [1] 99 ?s1
             = Inr ?s2"
    by (simp add: buffer_simps)
  have r: "accessor_read (get_access access_read access_global_buffer ?b) [1] ?s2 = Inr 99"
    by (simp add: buffer_simps)
  have old: "accessor_read (get_access access_read access_global_buffer ?b) [1] ?s = Inr 20"
    by (simp add: buffer_simps)
  from BufferImpl_copy_is_snapshot [OF copy, THEN conjunct1, rule_format, OF w,
      of access_read access_global_buffer]
  have "accessor_read (get_access access_read access_global_buffer ?c) [1] ?s2 = Inr 20"
    by (simp only: old)
  with copy w r show ?thesis
    by blast
qed

text \<open>
  Claim C4, as amended. On a buffer made read-only by its constructor, \<open>get_access\<close> of
  any mode, the writing modes included, returns an accessor on the wrapped storage: it
  looks neither at the mode nor at the flag. Through that accessor an index inside the
  shape reads exactly the wrapped element at the row-major offset of the index, and a
  write at that index stores into the wrapped storage; in one dimension, index \<open>j\<close> below
  the extent reads the \<open>j\<close>-th element after the host pointer.
\<close>

theorem get_access_ignores_mode:
  "ReadOnly (BufferImpl_const_host host_data r) = Some True \<and>
   get_access m t (BufferImpl_const_host host_data r)
     = \<lparr>Array = \<lparr>base = host_data, shape = map unat r\<rparr>,
        accessor_mode = m, accessor_target = t\<rparr> \<and>
   (element_offset (map unat r) Index = Inr k \<and> block host_data < length s \<and>
    offs host_data + k < length (s ! block host_data) \<longrightarrow>
      accessor_read (get_access m t (BufferImpl_const_host host_data r)) Index s
        = Inr (s ! block host_data ! (offs host_data + k)) \<and>
      accessor_write (get_access m t (BufferImpl_const_host host_data r)) Index v s
        = Inr (s[block host_data := (s ! block host_data)[offs host_data + k := v]])) \<and>
   (j < unat n \<and> j < 2 ^ 63 \<and> block host_data < length s \<and>
    offs host_data + unat n \<le> length (s ! block host_data) \<longrightarrow>
      accessor_read (get_access m t (BufferImpl_const_host host_data [n])) [word_of_nat j] s
        = Inr (s ! block host_data ! (offs host_data + j)))"
proof -
  have flag: "ReadOnly (BufferImpl_const_host host_data r) = Some True"
    by (simp add: BufferImpl_const_host_def)
  have acc: "get_access m t (BufferImpl_const_host host_data r)
     = \<lparr>Array = \<lparr>base = host_data, shape = map unat r\<rparr>,
        accessor_mode = m, accessor_target = t\<rparr>"
    by (simp add: get_access_def AccessorImpl_ctor_def BufferImpl_const_host_def)
  have general: "accessor_read (get_access m t (BufferImpl_const_host host_data r)) Index s
        = Inr (s ! block host_data ! (offs host_data + k)) \<and>
      accessor_write (get_access m t (BufferImpl_const_host host_data r)) Index v s
        = Inr (s[block host_data := (s ! block host_data)[offs host_data + k := v]])"
    if "element_offset (map unat r) Index = Inr k" "block host_data < length s"
      "offs host_data + k < length (s ! block host_data)"
    using that by (simp add: acc accessor_read_def accessor_write_def load_def store_elem_def)
  have linear: "accessor_read (get_access m t (BufferImpl_const_host host_data [n]))
          [word_of_nat j] s
        = Inr (s ! block host_data ! (offs host_data + j))"
    if j: "j < unat n" "j < 2 ^ 63" and mem: "block host_data < length s"
      "offs host_data + unat n \<le> length (s ! block host_data)"
  proof -
    have sj: "sint (word_of_nat j :: intptr_t) = int j"
      by (rule sint_of_nat_small [OF j(2)])
    have off: "element_offset (map unat [n]) [word_of_nat j] = Inr j"
      using j(1) by (simp add: sj)
    have "accessor_read (get_access m t (BufferImpl_const_host host_data [n]))
            [word_of_nat j] s = load host_data j s"
      using off
      by (simp add: get_access_def AccessorImpl_ctor_def BufferImpl_const_host_def
          accessor_read_def)
    also have "\<dots> = Inr (s ! block host_data ! (offs host_data + j))"
      using j(1) mem by (simp add: load_def)
    finally show ?thesis .
  qed
  from flag acc general linear show ?thesis
    by blast
qed

text \<open>
  The amended claim C4 on the read-only buffer over the host array \<open>{1, 2}\<close>: an accessor
  of mode \<open>read\<close> reads 2 at index 1, and so does an accessor of mode \<open>write\<close>.
\<close>

theorem get_access_ignores_mode_witness:
  "accessor_read (get_access access_read access_global_buffer
       (BufferImpl_const_host \<lparr>block = 0, offs = 0\<rparr> [2])) [1] [[1, 2 :: int]] = Inr 2 \<and>
   accessor_read (get_access access_write access_global_buffer
       (BufferImpl_const_host \<lparr>block = 0, offs = 0\<rparr> [2])) [1] [[1, 2 :: int]] = Inr 2"
proof -
  have h: "element_offset (map unat [2 :: intptr_t]) [1] = Inr 1 \<and>
           block \<lparr>block = 0, offs = 0\<rparr> < length [[1, 2 :: int]] \<and>
           offs \<lparr>block = 0, offs = 0\<rparr> + 1
             < length ([[1, 2 :: int]] ! block \<lparr>block = 0, offs = 0\<rparr>)"
    by simp
  from get_access_ignores_mode [of "\<lparr>block = 0, offs = 0\<rparr>" "[2]" access_read
      access_global_buffer "[1]" 1 "[[1, 2 :: int]]",
      THEN conjunct2, THEN conjunct2, THEN conjunct1, THEN mp, OF h, THEN conjunct1]
    get_access_ignores_mode [of "\<lparr>block = 0, offs = 0\<rparr>" "[2]" access_write
      access_global_buffer "[1]" 1 "[[1, 2 :: int]]",
      THEN conjunct2, THEN conjunct2, THEN conjunct1, THEN mp, OF h, THEN conjunct1]
  show ?thesis
    by simp
qed

text \<open>
  Claim C4 as stated fails: on the read-only buffer over the host array \<open>{1, 2}\<close> the
  request for an accessor of mode \<open>write\<close> returns an accessor, and the write of 9 at index
  1 through it succeeds and changes the host array to \<open>{1, 9}\<close>.
\<close>

theorem get_access_write_on_read_only_counterexample:
  "ReadOnly (BufferImpl_const_host \<lparr>block = 0, offs = 0\<rparr> [2]) = Some True \<and>
   get_access access_write access_global_buffer
       (BufferImpl_const_host \<lparr>block = 0, offs = 0\<rparr> [2])
     = \<lparr>Array = \<lparr>base = \<lparr>block = 0, offs = 0\<rparr>, shape = [2]\<rparr>,
        accessor_mode = access_write, accessor_target = access_global_buffer\<rparr> \<and>
   accessor_write (get_access access_write access_global_buffer
       (BufferImpl_const_host \<lparr>block = 0, offs = 0\<rparr> [2])) [1] 9 [[1, 2 :: int]]
     = Inr [[1, 9]]"
  by (simp add: buffer_simps)

text \<open>
  Claim C8, what the code does. For two pointers that delimit a part of one block, the
  constructor from an iterator pair returns a buffer whose storage is a new block of
  exactly \<open>distance(first, last)\<close> elements, equal to the source elements in order, viewed
  as a one-dimensional array of that extent; but no initialiser gives the \<open>ReadOnly\<close>
  member a value: the flag is not \<open>false\<close>, it is indeterminate.
\<close>

theorem BufferImpl_iterators_copies_elements:
  assumes "block start_iterator = block end_iterator"
    and "offs start_iterator \<le> offs end_iterator"
    and "block start_iterator < length s"
    and "offs end_iterator \<le> length (s ! block start_iterator)"
  shows "\<exists>b elems.
           BufferImpl_iterators start_iterator end_iterator s = Inr (b, s @ [elems]) \<and>
           Access b = \<lparr>base = \<lparr>block = length s, offs = 0\<rparr>,
                       shape = [offs end_iterator - offs start_iterator]\<rparr> \<and>
           Allocation b = Some (Access b) \<and>
           length elems = offs end_iterator - offs start_iterator \<and>
           (\<forall>k<offs end_iterator - offs start_iterator.
              elems ! k = s ! block start_iterator ! (offs start_iterator + k)) \<and>
           ReadOnly b = None \<and> ReadOnly b \<noteq> Some False"
proof -
  let ?n = "offs end_iterator - offs start_iterator"
  let ?elems = "take ?n (drop (offs start_iterator) (s ! block start_iterator))"
  have lr: "load_range start_iterator ?n s = Inr ?elems"
    using assms by (simp add: load_range_def)
  have len: "length ?elems = ?n"
    using assms by simp
  have nth: "?elems ! k = s ! block start_iterator ! (offs start_iterator + k)" if "k < ?n" for k
    using that assms by simp
  have "BufferImpl_iterators start_iterator end_iterator s =
          Inr (\<lparr>Allocation = Some \<lparr>base = \<lparr>block = length s, offs = 0\<rparr>, shape = [?n]\<rparr>,
                Access = \<lparr>base = \<lparr>block = length s, offs = 0\<rparr>, shape = [?n]\<rparr>,
                ReadOnly = None\<rparr>, s @ [?elems])"
    using assms(1,2) lr by (simp add: BufferImpl_iterators_def alloc_def Let_def)
  with len nth show ?thesis
    by auto
qed

text \<open>
  Claim C8 on the host array \<open>{10, 20, 30}\<close>, from its first element to one past its last:
  the new block holds \<open>{10, 20, 30}\<close>, the extent is 3, and the flag has no value.
\<close>

theorem BufferImpl_iterators_copies_elements_witness:
  "\<exists>b. BufferImpl_iterators \<lparr>block = 0, offs = 0\<rparr> \<lparr>block = 0, offs = 3\<rparr>
          [[10, 20, 30 :: int]] = Inr (b, [[10, 20, 30], [10, 20, 30]]) \<and>
       shape (Access b) = [3] \<and> ReadOnly b = None"
proof -
  have h: "block \<lparr>block = 0, offs = 0\<rparr> = block \<lparr>block = 0, offs = 3\<rparr>"
    "offs \<lparr>block = 0, offs = 0\<rparr> \<le> offs \<lparr>block = 0, offs = 3\<rparr>"
    "block \<lparr>block = 0, offs = 0\<rparr> < length [[10, 20, 30 :: int]]"
    "offs \<lparr>block = 0, offs = 3\<rparr>
       \<le> length ([[10, 20, 30 :: int]] ! block \<lparr>block = 0, offs = 0\<rparr>)"
    by simp_all
  from BufferImpl_iterators_copies_elements [OF h]
  obtain b elems where
    e: "BufferImpl_iterators \<lparr>block = 0, offs = 0\<rparr> \<lparr>block = 0, offs = 3\<rparr>
          [[10, 20, 30 :: int]] = Inr (b, [[10, 20, 30]] @ [elems])"
    and acc: "Access b = \<lparr>base = \<lparr>block = length [[10, 20, 30 :: int]], offs = 0\<rparr>,
                shape = [offs \<lparr>block = 0, offs = 3\<rparr> - offs \<lparr>block = 0, offs = 0\<rparr>]\<rparr>"
    and len: "length elems = offs \<lparr>block = 0, offs = 3\<rparr> - offs \<lparr>block = 0, offs = 0\<rparr>"
    and nth: "\<forall>k<offs \<lparr>block = 0, offs = 3\<rparr> - offs \<lparr>block = 0, offs = 0\<rparr>.
              elems ! k = [[10, 20, 30 :: int]] ! block \<lparr>block = 0, offs = 0\<rparr>
                            ! (offs \<lparr>block = 0, offs = 0\<rparr> + k)"
    and ro: "ReadOnly b = None"
    by blast
  have "elems = [10, 20, 30]"
    using len nth by (simp add: list_eq_iff_nth_eq less_Suc_eq numeral_3_eq_3)
  with e acc ro show ?thesis
    by simp
qed

text \<open>
  Claim C9. For every buffer \<open>b\<close> whose view lies inside a block of the store, whatever
  its \<open>ReadOnly\<close> flag, the copy constructor returns a buffer whose flag is \<open>false\<close>; and
  the copy is writable: at every index inside the shape, a write through an accessor of
  the copy succeeds and the value written is read back through an accessor of the copy.
\<close>

theorem BufferImpl_copy_not_read_only:
  assumes "block (base (Access b)) < length s"
    and "offs (base (Access b)) + num_elements (Access b)
           \<le> length (s ! block (base (Access b)))"
  shows "\<exists>c s1. BufferImpl_copy b s = Inr (c, s1) \<and> ReadOnly c = Some False \<and>
           (\<forall>k. element_offset (shape (Access b)) Index = Inr k \<longrightarrow>
              (\<exists>s2. accessor_write (get_access m t c) Index v s1 = Inr s2 \<and>
                    accessor_read (get_access m' t' c) Index s2 = Inr v))"
proof -
  let ?n = "num_elements (Access b)"
  let ?elems = "take ?n (drop (offs (base (Access b))) (s ! block (base (Access b))))"
  let ?p = "\<lparr>block = length s, offs = 0\<rparr>"
  let ?c = "\<lparr>Allocation = Some \<lparr>base = ?p, shape = shape (Access b)\<rparr>,
             Access = \<lparr>base = ?p, shape = shape (Access b)\<rparr>, ReadOnly = Some False\<rparr>"
  have lr: "load_range (base (Access b)) ?n s = Inr ?elems"
    using assms by (simp add: load_range_def)
  have len: "length ?elems = ?n"
    using assms by simp
  have copy: "BufferImpl_copy b s = Inr (?c, s @ [?elems])"
    by (rule BufferImpl_copy_returns [OF lr])
  have rw: "\<exists>s2. accessor_write (get_access m t ?c) Index v (s @ [?elems]) = Inr s2 \<and>
                 accessor_read (get_access m' t' ?c) Index s2 = Inr v"
    if k: "element_offset (shape (Access b)) Index = Inr k" for k
  proof -
    have kn: "k < length ?elems"
      using element_offset_bound [OF k] len by (simp only: num_elements_def)
    have w: "accessor_write (get_access m t ?c) Index v (s @ [?elems])
               = Inr (s @ [?elems[k := v]])"
      using store_fresh [OF kn, of s v]
      by (simp add: accessor_write_def get_access_def AccessorImpl_ctor_def k)
    have "load ?p k (s @ [?elems[k := v]]) = Inr (?elems[k := v] ! k)"
      using kn by (intro load_fresh) simp
    then have "accessor_read (get_access m' t' ?c) Index (s @ [?elems[k := v]]) = Inr v"
      using kn by (simp add: accessor_read_def get_access_def AccessorImpl_ctor_def k)
    with w show ?thesis
      by blast
  qed
  from copy rw show ?thesis
    by (intro exI [of _ ?c] exI [of _ "s @ [?elems]"]) simp
qed

text \<open>
  Claim C9 on the read-only buffer over the host array \<open>{10, 20, 30}\<close>: its copy has the
  flag \<open>false\<close>, and 99 written at index 1 through an accessor of the copy is read back.
\<close>

theorem BufferImpl_copy_not_read_only_witness:
  "ReadOnly (BufferImpl_const_host \<lparr>block = 0, offs = 0\<rparr> [3]) = Some True \<and>
   (\<exists>c s1 s2.
      BufferImpl_copy (BufferImpl_const_host \<lparr>block = 0, offs = 0\<rparr> [3]) [[10, 20, 30 :: int]]
        = Inr (c, s1) \<and>
      ReadOnly c = Some False \<and>
      accessor_write (get_access access_write access_global_buffer c) [1] 99 s1 = Inr s2 \<and>
      accessor_read (get_access access_read access_global_buffer c) [1] s2 = Inr 99)"
proof -
  let ?b = "BufferImpl_const_host \<lparr>block = 0, offs = 0\<rparr> [3]"
  have h: "block (base (Access ?b)) < length [[10, 20, 30 :: int]]"
    "offs (base (Access ?b)) + num_elements (Access ?b)
       \<le> length ([[10, 20, 30 :: int]] ! block (base (Access ?b)))"
    by (simp_all add: BufferImpl_const_host_def num_elements_def)
  have k: "element_offset (shape (Access ?b)) [1] = Inr 1"
    by (simp add: BufferImpl_const_host_def)
  from BufferImpl_copy_not_read_only [OF h, of "[1]" access_write access_global_buffer 99
      access_read access_global_buffer]
  obtain c s1 where c: "BufferImpl_copy ?b [[10, 20, 30 :: int]] = Inr (c, s1)"
    "ReadOnly c = Some False"
    and w: "\<forall>k. element_offset (shape (Access ?b)) [1] = Inr k \<longrightarrow>
              (\<exists>s2. accessor_write (get_access access_write access_global_buffer c) [1] 99 s1
                      = Inr s2 \<and>
                    accessor_read (get_access access_read access_global_buffer c) [1] s2
                      = Inr 99)"
    by blast
  from w [rule_format, OF k] c show ?thesis
    by (auto simp: BufferImpl_const_host_def)
qed

section \<open>Further properties of the element-wise operators\<close>

lemma subscript_error: "subscript v i = Inl e \<Longrightarrow> e = OutOfRange"
  by (simp add: subscript_def split: if_splits)

lemma range_add_loop_commute:
  "range_add_loop D i a b result = range_add_loop D i b a result"
proof (induction D i a b result rule: range_add_loop.induct)
  case (1 D i a b result)
  note unfold_ab = range_add_loop.simps [of D i a b result]
  note unfold_ba = range_add_loop.simps [of D i b a result]
  show ?case
  proof (cases "i < D")
    case False
    then show ?thesis
      using unfold_ab unfold_ba by simp
  next
    case True
    show ?thesis
    proof (cases "subscript a i")
      case (Inl e)
      then have "e = OutOfRange"
        by (rule subscript_error)
      then show ?thesis
        using True Inl unfold_ab unfold_ba subscript_error [of b i]
        by (auto split: sum.splits)
    next
      case x: (Inr x)
      show ?thesis
      proof (cases "subscript b i")
        case (Inl e)
        then have "e = OutOfRange"
          by (rule subscript_error)
        then show ?thesis
          using True x Inl unfold_ab unfold_ba by simp
      next
        case y: (Inr y)
        have "range_add_loop D (Suc i) a b (result[i := x + y])
                = range_add_loop D (Suc i) b a (result[i := x + y])"
          by (rule "1.IH" [OF True x y])
        then show ?thesis
          using True x y unfold_ab unfold_ba by (simp add: add.commute)
      qed
    qed
  qed
qed

lemma range_mul_loop_commute:
  "range_mul_loop D i a b result = range_mul_loop D i b a result"
proof (induction D i a b result rule: range_mul_loop.induct)
  case (1 D i a b result)
  note unfold_ab = range_mul_loop.simps [of D i a b result]
  note unfold_ba = range_mul_loop.simps [of D i b a result]
  show ?case
  proof (cases "i < D")
    case False
    then show ?thesis
      using unfold_ab unfold_ba by simp
  next
    case True
    show ?thesis
    proof (cases "subscript a i")
      case (Inl e)
      then have "e = OutOfRange"
        by (rule subscript_error)
      then show ?thesis
        using True Inl unfold_ab unfold_ba subscript_error [of b i]
        by (auto split: sum.splits)
    next
      case x: (Inr x)
      show ?thesis
      proof (cases "subscript b i")
        case (Inl e)
        then have "e = OutOfRange"
          by (rule subscript_error)
        then show ?thesis
          using True x Inl unfold_ab unfold_ba by simp
      next
        case y: (Inr y)
        have "range_mul_loop D (Suc i) a b (result[i := x * y])
                = range_mul_loop D (Suc i) b a (result[i := x * y])"
          by (rule "1.IH" [OF True x y])
        then show ?thesis
          using True x y unfold_ab unfold_ba by (simp add: mult.commute)
      qed
    qed
  qed
qed

text \<open>
  The element-wise addition and multiplication of two coordinates are commutative, also
  in wrapping arithmetic and also where an operand is too short for the rank: both orders
  then subscript outside a vector.
\<close>

lemma range_add_mul_commute:
  "range_add D a b = range_add D b a \<and> range_mul D a b = range_mul D b a"
  by (simp add: range_add_def range_mul_def range_add_loop_commute [of D 0 a b]
      range_mul_loop_commute [of D 0 a b])

end
